theory Spec2Isabelle
  imports Complex_Main "HOL-Library.Multiset"
begin

section \<open>Tables, cells and errors\<close>

text \<open>
  The two scripts (\<^verbatim>\<open>preparing_sample_frame.py\<close> and \<^verbatim>\<open>sampling_code.py\<close>) are
  pandas pipelines. A cell is a missing value (pandas' NaN / None), a number, one of the
  two infinities that float64 division by zero produces, or a string. Numbers are exact
  rationals: rounding of float64 is abstracted away, the sentinels are kept.
\<close>

datatype cell = Null | Num rat | PosInf | NegInf | Str string

datatype error =
    KeyError string
  | TypeError
  | ValueError
  | MergeError
  | NameError string
  | FileExistsError string
  | FileNotFoundError
  | IsADirectoryError
  | NotADirectoryError

text \<open>
  A row maps column labels to cells; a dataframe is the ordered list of its column
  labels and the ordered list of its rows, each with its index label. Column labels of a
  dataframe are pairwise different in this model.
\<close>

type_synonym row = "string \<rightharpoonup> cell"

record dataframe =
  columns :: "string list"
  rows :: "(nat \<times> row) list"

definition cellat :: "row \<Rightarrow> string \<Rightarrow> cell" where
  "cellat r c = (case r c of Some v \<Rightarrow> v | None \<Rightarrow> Null)"

definition wf_df :: "dataframe \<Rightarrow> bool" where
  "wf_df df \<longleftrightarrow> distinct (columns df) \<and> list_all (\<lambda>ir. dom (snd ir) = set (columns df)) (rows df)"

subsection \<open>Element-wise arithmetic and comparison\<close>

text \<open>
  \<open>+\<close>, \<open>/\<close> and \<open>*\<close> on cells as numpy and Python compute them element by element:
  NaN propagates, a number divided by zero is an infinity (or NaN for \<open>0 / 0\<close>), strings
  concatenate under \<open>+\<close> and raise \<open>TypeError\<close> when mixed with numbers.
\<close>

fun cell_add :: "cell \<Rightarrow> cell \<Rightarrow> error + cell" where
  "cell_add (Str a) (Str b) = Inr (Str (a @ b))"
| "cell_add (Str a) _ = Inl TypeError"
| "cell_add _ (Str b) = Inl TypeError"
| "cell_add (Num a) (Num b) = Inr (Num (a + b))"
| "cell_add Null _ = Inr Null"
| "cell_add _ Null = Inr Null"
| "cell_add PosInf NegInf = Inr Null"
| "cell_add NegInf PosInf = Inr Null"
| "cell_add PosInf _ = Inr PosInf"
| "cell_add _ PosInf = Inr PosInf"
| "cell_add NegInf _ = Inr NegInf"
| "cell_add _ NegInf = Inr NegInf"

definition sign_inf :: "bool \<Rightarrow> cell" where
  "sign_inf positive = (if positive then PosInf else NegInf)"

fun cell_div :: "cell \<Rightarrow> cell \<Rightarrow> error + cell" where
  "cell_div (Str a) _ = Inl TypeError"
| "cell_div _ (Str b) = Inl TypeError"
| "cell_div Null _ = Inr Null"
| "cell_div _ Null = Inr Null"
| "cell_div (Num a) (Num b) =
     Inr (if b \<noteq> 0 then Num (a / b)
          else if 0 < a then PosInf else if a < 0 then NegInf else Null)"
| "cell_div (Num a) _ = Inr (Num 0)"
| "cell_div PosInf (Num b) = Inr (sign_inf (0 \<le> b))"
| "cell_div NegInf (Num b) = Inr (sign_inf (b < 0))"
| "cell_div _ _ = Inr Null"

fun cell_mul :: "cell \<Rightarrow> cell \<Rightarrow> error + cell" where
  "cell_mul (Str a) _ = Inl TypeError"
| "cell_mul _ (Str b) = Inl TypeError"
| "cell_mul Null _ = Inr Null"
| "cell_mul _ Null = Inr Null"
| "cell_mul (Num a) (Num b) = Inr (Num (a * b))"
| "cell_mul (Num a) PosInf = Inr (if a = 0 then Null else sign_inf (0 < a))"
| "cell_mul (Num a) NegInf = Inr (if a = 0 then Null else sign_inf (a < 0))"
| "cell_mul PosInf (Num b) = Inr (if b = 0 then Null else sign_inf (0 < b))"
| "cell_mul NegInf (Num b) = Inr (if b = 0 then Null else sign_inf (b < 0))"
| "cell_mul PosInf PosInf = Inr PosInf"
| "cell_mul NegInf NegInf = Inr PosInf"
| "cell_mul _ _ = Inr NegInf"

text \<open>\<open>x >= k\<close> for a numeric constant \<open>k\<close>: NaN compares false, a string raises.\<close>

fun cell_ge :: "cell \<Rightarrow> rat \<Rightarrow> error + bool" where
  "cell_ge (Num a) k = Inr (k \<le> a)"
| "cell_ge PosInf k = Inr True"
| "cell_ge NegInf k = Inr False"
| "cell_ge Null k = Inr False"
| "cell_ge (Str s) k = Inl TypeError"

text \<open>\<open>x != k\<close>: true for everything but the number \<open>k\<close> itself (NaN and strings included).\<close>

fun cell_ne :: "cell \<Rightarrow> rat \<Rightarrow> bool" where
  "cell_ne (Num a) k = (a \<noteq> k)"
| "cell_ne _ k = True"

text \<open>\<open>x == v\<close> element-wise: a missing value equals nothing, not even a missing value.\<close>

fun cell_eq :: "cell \<Rightarrow> cell \<Rightarrow> bool" where
  "cell_eq Null _ = False"
| "cell_eq _ Null = False"
| "cell_eq a b = (a = b)"

subsection \<open>Running a fallible computation over a list\<close>

fun map_e :: "('a \<Rightarrow> error + 'b) \<Rightarrow> 'a list \<Rightarrow> error + 'b list" where
  "map_e f [] = Inr []"
| "map_e f (x # xs) =
     (case f x of Inl e \<Rightarrow> Inl e
      | Inr y \<Rightarrow> (case map_e f xs of Inl e \<Rightarrow> Inl e | Inr ys \<Rightarrow> Inr (y # ys)))"

fun fold_e :: "('b \<Rightarrow> 'a \<Rightarrow> error + 'b) \<Rightarrow> 'a list \<Rightarrow> 'b \<Rightarrow> error + 'b" where
  "fold_e f [] acc = Inr acc"
| "fold_e f (x # xs) acc = (case f acc x of Inl e \<Rightarrow> Inl e | Inr acc' \<Rightarrow> fold_e f xs acc')"

subsection \<open>The pandas operations the scripts call\<close>

text \<open>\<open>df[c]\<close>: the values of one column, in row order; \<open>KeyError\<close> for an unknown label.\<close>

definition getitem :: "dataframe \<Rightarrow> string \<Rightarrow> error + cell list" where
  "getitem df c =
     (if c \<in> set (columns df) then Inr (map (\<lambda>ir. cellat (snd ir) c) (rows df))
      else Inl (KeyError c))"

text \<open>
  \<open>df[c] = values\<close>: the column is replaced, or appended as the last column when new.
  The values come from columns of the same frame, so they are assigned by position;
  a wrong length is a \<open>ValueError\<close>.
\<close>

definition setitem :: "dataframe \<Rightarrow> string \<Rightarrow> cell list \<Rightarrow> error + dataframe" where
  "setitem df c vs =
     (if length vs \<noteq> length (rows df) then Inl ValueError
      else Inr \<lparr>columns = (if c \<in> set (columns df) then columns df else columns df @ [c]),
                rows = map (\<lambda>(ir, v). (fst ir, (snd ir)(c \<mapsto> v))) (zip (rows df) vs)\<rparr>)"

text \<open>\<open>df.fillna(v)\<close>: every missing cell becomes \<open>v\<close>.\<close>

definition fill_cell :: "cell \<Rightarrow> cell \<Rightarrow> cell" where
  "fill_cell v x = (if x = Null then v else x)"

definition fillna :: "cell \<Rightarrow> dataframe \<Rightarrow> dataframe" where
  "fillna v df = df\<lparr>rows := map (\<lambda>ir. (fst ir, map_option (fill_cell v) \<circ> snd ir)) (rows df)\<rparr>"

text \<open>\<open>df[[c1, ..., cn]]\<close>: the listed columns, in the listed order.\<close>

definition select_columns :: "dataframe \<Rightarrow> string list \<Rightarrow> error + dataframe" where
  "select_columns df cs =
     (case filter (\<lambda>c. c \<notin> set (columns df)) cs of
        c # _ \<Rightarrow> Inl (KeyError c)
      | [] \<Rightarrow> Inr \<lparr>columns = cs, rows = map (\<lambda>ir. (fst ir, snd ir |` set cs)) (rows df)\<rparr>)"

text \<open>\<open>df.drop(columns=cs)\<close> with the default \<open>errors='raise'\<close>.\<close>

definition drop_columns :: "dataframe \<Rightarrow> string list \<Rightarrow> error + dataframe" where
  "drop_columns df cs =
     (case filter (\<lambda>c. c \<notin> set (columns df)) cs of
        c # _ \<Rightarrow> Inl (KeyError c)
      | [] \<Rightarrow> Inr \<lparr>columns = filter (\<lambda>c. c \<notin> set cs) (columns df),
                    rows = map (\<lambda>ir. (fst ir, snd ir |` (- set cs))) (rows df)\<rparr>)"

text \<open>Fresh index labels \<open>0, 1, 2, ...\<close> (a new \<open>RangeIndex\<close>).\<close>

definition renumber :: "row list \<Rightarrow> (nat \<times> row) list" where
  "renumber rs = zip [0..<length rs] rs"

text \<open>
  \<open>pd.merge(left, right, how='left', left_on=lk, right_on=rk, suffixes=(None, sfx))\<close>.
  Every left row is kept, in order. It is paired with each right row whose \<open>rk\<close> cell
  equals its \<open>lk\<close> cell (pandas matches a missing key with a missing key), or with
  missing values when there is none. A right label that also is a left label gets the
  suffix. When both keys have the same label the key column appears once. The result has
  a fresh index. Labels that collide after suffixing are rejected.
\<close>

definition right_label :: "string list \<Rightarrow> string \<Rightarrow> string \<Rightarrow> string" where
  "right_label lcols sfx c = (if c \<in> set lcols then c @ sfx else c)"

definition right_part :: "string list \<Rightarrow> string \<Rightarrow> string list \<Rightarrow> row option \<Rightarrow> row" where
  "right_part lcols sfx rcols r =
     map_of (map (\<lambda>c. (right_label lcols sfx c,
                        (case r of None \<Rightarrow> Null | Some d \<Rightarrow> cellat d c))) rcols)"

definition join_row ::
  "string list \<Rightarrow> string \<Rightarrow> string list \<Rightarrow> string \<Rightarrow> string \<Rightarrow> row list \<Rightarrow> row \<Rightarrow> row list" where
  "join_row lcols sfx rcols lk rk rights l =
     (case filter (\<lambda>d. cellat d rk = cellat l lk) rights of
        [] \<Rightarrow> [right_part lcols sfx rcols None ++ l]
      | ms \<Rightarrow> map (\<lambda>d. right_part lcols sfx rcols (Some d) ++ l) ms)"

definition merge_left ::
  "dataframe \<Rightarrow> dataframe \<Rightarrow> string \<Rightarrow> string \<Rightarrow> string \<Rightarrow> error + dataframe" where
  "merge_left left right lk rk sfx =
     (if lk \<notin> set (columns left) then Inl (KeyError lk)
      else if rk \<notin> set (columns right) then Inl (KeyError rk)
      else
        let rcols = (if lk = rk then filter (\<lambda>c. c \<noteq> rk) (columns right) else columns right);
            labels = columns left @ map (right_label (columns left) sfx) rcols
        in if \<not> distinct labels then Inl MergeError
           else Inr \<lparr>columns = labels,
                     rows = renumber (concat (map
                        (join_row (columns left) sfx rcols lk rk (map snd (rows right)))
                        (map snd (rows left))))\<rparr>)"

text \<open>\<open>df[mask]\<close> with a boolean mask: the marked rows, with their index labels.\<close>

definition select_rows :: "dataframe \<Rightarrow> bool list \<Rightarrow> dataframe" where
  "select_rows df marks = df\<lparr>rows := map fst (filter snd (zip (rows df) marks))\<rparr>"

text \<open>
  \<open>df.duplicated(c, keep=False)\<close>: a row is marked when the value of its \<open>c\<close> cell
  occurs at least twice in the column (missing values count as one value).
\<close>

definition duplicated :: "dataframe \<Rightarrow> string \<Rightarrow> error + bool list" where
  "duplicated df c =
     (case getitem df c of Inl e \<Rightarrow> Inl e
      | Inr vs \<Rightarrow> Inr (map (\<lambda>v. 2 \<le> count_list vs v) vs))"

text \<open>\<open>df.reset_index(drop=True)\<close>.\<close>

definition reset_index :: "dataframe \<Rightarrow> dataframe" where
  "reset_index df = df\<lparr>rows := renumber (map snd (rows df))\<rparr>"

text \<open>
  \<open>series.sum()\<close>: missing values are skipped, the rest is added up; an empty sum
  is \<open>0\<close>.
\<close>

definition series_sum :: "cell list \<Rightarrow> error + cell" where
  "series_sum vs =
     (case filter (\<lambda>v. v \<noteq> Null) vs of
        [] \<Rightarrow> Inr (Num 0)
      | x # xs \<Rightarrow> fold_e cell_add xs x)"

text \<open>
  \<open>df.sort_values(by=c, ascending=False, ignore_index=True)\<close>: descending by the
  \<open>c\<close> cell, missing values last, fresh index. pandas sorts with quicksort, so the order
  among equal keys is its implementation's; the model keeps their order. Sorting a column
  that holds a string next to numbers raises.
\<close>

fun desc_before :: "cell \<Rightarrow> cell \<Rightarrow> bool" where
  "desc_before Null _ = False"
| "desc_before _ Null = True"
| "desc_before PosInf b = (b \<noteq> PosInf)"
| "desc_before _ PosInf = False"
| "desc_before NegInf _ = False"
| "desc_before _ NegInf = True"
| "desc_before (Num a) (Num b) = (b < a)"
| "desc_before _ _ = False"

fun insert_desc :: "(cell \<times> 'a) \<Rightarrow> (cell \<times> 'a) list \<Rightarrow> (cell \<times> 'a) list" where
  "insert_desc x [] = [x]"
| "insert_desc x (y # ys) =
     (if desc_before (fst x) (fst y) then x # y # ys else y # insert_desc x ys)"

definition sort_desc :: "(cell \<times> 'a) list \<Rightarrow> (cell \<times> 'a) list" where
  "sort_desc xs = foldl (\<lambda>acc x. insert_desc x acc) [] xs"

definition is_str :: "cell \<Rightarrow> bool" where
  "is_str v = (case v of Str s \<Rightarrow> True | _ \<Rightarrow> False)"

definition sort_values_desc :: "dataframe \<Rightarrow> string \<Rightarrow> error + dataframe" where
  "sort_values_desc df c =
     (case getitem df c of Inl e \<Rightarrow> Inl e
      | Inr ks \<Rightarrow>
          if list_ex is_str ks then Inl TypeError
          else Inr (df\<lparr>rows := renumber (map snd (sort_desc (zip ks (map snd (rows df)))))\<rparr>))"

text \<open>\<open>df[:n]\<close>: the first \<open>n\<close> rows; a negative \<open>n\<close> counts from the end.\<close>

definition head_rows :: "dataframe \<Rightarrow> int \<Rightarrow> dataframe" where
  "head_rows df n =
     df\<lparr>rows := (if 0 \<le> n then take (nat n) (rows df)
                 else take (length (rows df) - nat (- n)) (rows df))\<rparr>"

section \<open>Files, objects and the random source\<close>

text \<open>
  A path is the string pathlib prints for it (POSIX separators, already normalised).
  \<open>parent\<close> is \<open>Path.parent\<close>, \<open>joinpath\<close> is the \<open>/\<close> operator with a file name,
  \<open>suffix\<close> is \<open>Path.suffix\<close>.
\<close>

type_synonym path = string

definition parent :: "path \<Rightarrow> path" where
  "parent p =
     (let d = dropWhile (\<lambda>c. c \<noteq> CHR ''/'') (rev p)
      in if d = [] then ''.''
         else if tl d = [] then ''/''
         else rev (tl d))"

definition joinpath :: "path \<Rightarrow> string \<Rightarrow> path" where
  "joinpath d name =
     (if d = ''.'' then name else if d = ''/'' then d @ name else d @ ''/'' @ name)"

definition suffix :: "path \<Rightarrow> string" where
  "suffix p =
     (let name = rev (takeWhile (\<lambda>c. c \<noteq> CHR ''/'') (rev p));
          ext = rev (takeWhile (\<lambda>c. c \<noteq> CHR ''.'') (rev name))
      in if length ext = length name \<or> length ext + 1 = length name \<or> ext = [] then []
         else CHR ''.'' # ext)"

text \<open>
  What a written file holds: a header line and the lines of cells under it, as a
  spreadsheet or as delimited text. A blank header cell is the empty string.
\<close>

record sheet =
  header :: "string list"
  body :: "cell list list"

datatype content = Excel sheet | Csv sheet

text \<open>
  The state a run works on: the dataframe objects (\<open>heap\<close>, addressed by reference,
  \<open>nxt\<close> the next free reference), the file system (\<open>files\<close> and \<open>dirs\<close>), and numpy's
  global random stream (\<open>rand\<close>, read from position \<open>rpos\<close>; each draw is uniform on
  [0, 1)). \<open>print\<close> output is not modelled.
\<close>

type_synonym ref = nat

record world =
  heap :: "ref \<Rightarrow> dataframe"
  nxt :: ref
  files :: "path \<rightharpoonup> content"
  dirs :: "path set"
  rand :: "nat \<Rightarrow> rat"
  rpos :: nat

type_synonym 'a prog = "world \<Rightarrow> error + ('a \<times> world)"

definition return :: "'a \<Rightarrow> 'a prog" where
  "return x w = Inr (x, w)"

definition raise :: "error \<Rightarrow> 'a prog" where
  "raise e w = Inl e"

definition bind :: "'a prog \<Rightarrow> ('a \<Rightarrow> 'b prog) \<Rightarrow> 'b prog" where
  "bind m f w = (case m w of Inl e \<Rightarrow> Inl e | Inr (x, w') \<Rightarrow> f x w')"

definition lift :: "error + 'a \<Rightarrow> 'a prog" where
  "lift v w = (case v of Inl e \<Rightarrow> Inl e | Inr x \<Rightarrow> Inr (x, w))"

subsection \<open>Objects\<close>

text \<open>
  \<open>load\<close> reads the dataframe behind a reference, \<open>store\<close> is an in-place change of that
  object, \<open>alloc\<close> is a new object, \<open>copy_df\<close> is \<open>df.copy()\<close>.
\<close>

definition load :: "ref \<Rightarrow> dataframe prog" where
  "load r w = Inr (heap w r, w)"

definition store :: "ref \<Rightarrow> dataframe \<Rightarrow> unit prog" where
  "store r d w = Inr ((), w\<lparr>heap := (heap w)(r := d)\<rparr>)"

definition alloc :: "dataframe \<Rightarrow> ref prog" where
  "alloc d w = Inr (nxt w, w\<lparr>heap := (heap w)(nxt w := d), nxt := Suc (nxt w)\<rparr>)"

definition copy_df :: "ref \<Rightarrow> ref prog" where
  "copy_df r = bind (load r) alloc"

text \<open>\<open>df.fillna(v, inplace=True)\<close> and \<open>df.drop(columns=cs, inplace=True)\<close>.\<close>

definition fillna_inplace :: "ref \<Rightarrow> cell \<Rightarrow> unit prog" where
  "fillna_inplace r v = bind (load r) (\<lambda>d. store r (fillna v d))"

definition drop_inplace :: "ref \<Rightarrow> string list \<Rightarrow> unit prog" where
  "drop_inplace r cs = bind (load r) (\<lambda>d. bind (lift (drop_columns d cs)) (store r))"

text \<open>\<open>df[c] = df[a] op df[b]\<close>: both operands are read, combined row by row, assigned.\<close>

definition zip_op :: "(cell \<Rightarrow> cell \<Rightarrow> error + cell) \<Rightarrow> cell list \<Rightarrow> cell list \<Rightarrow> error + cell list" where
  "zip_op f xs ys = map_e (\<lambda>(x, y). f x y) (zip xs ys)"

definition assign_op ::
  "ref \<Rightarrow> string \<Rightarrow> (cell \<Rightarrow> cell \<Rightarrow> error + cell) \<Rightarrow> string \<Rightarrow> string \<Rightarrow> unit prog" where
  "assign_op r c f a b =
     bind (load r) (\<lambda>d.
     bind (lift (getitem d a)) (\<lambda>xs.
     bind (lift (getitem d b)) (\<lambda>ys.
     bind (lift (zip_op f xs ys)) (\<lambda>vs.
     bind (lift (setitem d c vs)) (store r)))))"

subsection \<open>The file system\<close>

definition path_exists :: "path \<Rightarrow> bool prog" where
  "path_exists p w = Inr (files w p \<noteq> None \<or> p \<in> dirs w, w)"

definition write_file :: "path \<Rightarrow> content \<Rightarrow> unit prog" where
  "write_file p c w =
     (if p \<in> dirs w then Inl IsADirectoryError
      else if parent p \<notin> dirs w then Inl FileNotFoundError
      else Inr ((), w\<lparr>files := (files w)(p \<mapsto> c)\<rparr>))"

text \<open>
  \<open>df.to_excel(path, index=...)\<close> and \<open>df.to_csv(path, index=...)\<close>. With \<open>index\<close>
  (the default of both) the index labels are the first column, under a blank header cell.
  A spreadsheet stores an infinity as the text \<open>inf\<close>.
\<close>

definition inf_rep :: "cell \<Rightarrow> cell" where
  "inf_rep v = (case v of PosInf \<Rightarrow> Str ''inf'' | NegInf \<Rightarrow> Str ''-inf'' | _ \<Rightarrow> v)"

definition to_sheet :: "bool \<Rightarrow> (cell \<Rightarrow> cell) \<Rightarrow> dataframe \<Rightarrow> sheet" where
  "to_sheet index rep df =
     \<lparr>header = (if index then [[]] else []) @ columns df,
      body = map (\<lambda>ir. (if index then [Num (of_nat (fst ir))] else [])
                        @ map (\<lambda>c. rep (cellat (snd ir) c)) (columns df)) (rows df)\<rparr>"

definition to_excel :: "ref \<Rightarrow> path \<Rightarrow> bool \<Rightarrow> unit prog" where
  "to_excel r p index = bind (load r) (\<lambda>d. write_file p (Excel (to_sheet index inf_rep d)))"

definition to_csv :: "ref \<Rightarrow> path \<Rightarrow> bool \<Rightarrow> unit prog" where
  "to_csv r p index = bind (load r) (\<lambda>d. write_file p (Csv (to_sheet index id d)))"

text \<open>
  \<open>pd.read_excel(path)\<close>: the first line is the header, a blank header cell at position
  \<open>i\<close> is named \<open>Unnamed: i\<close>, a name that occurred before gets \<open>.1\<close>, \<open>.2\<close>, ...
  appended until it is new, and the index is fresh.
\<close>

fun show_nat :: "nat \<Rightarrow> string" where
  "show_nat n =
     (if n < 10 then [''0123456789'' ! n]
      else show_nat (n div 10) @ [''0123456789'' ! (n mod 10)])"

definition header_names :: "string list \<Rightarrow> string list" where
  "header_names hs =
     map (\<lambda>(i, h). if h = [] then ''Unnamed: '' @ show_nat i else h) (zip [0..<length hs] hs)"

text \<open>
  The renaming of repeated names, as pandas' parser does it: \<open>counts\<close> records how
  often a name was seen; a name seen \<open>k > 0\<close> times becomes \<open>name.k\<close>, and the loop
  goes on with that name while it was seen as well.
\<close>

type_synonym counts = "(string \<times> nat) list"

definition count_of :: "counts \<Rightarrow> string \<Rightarrow> nat" where
  "count_of cs k = (case map_of cs k of None \<Rightarrow> 0 | Some n \<Rightarrow> n)"

definition set_count :: "string \<Rightarrow> nat \<Rightarrow> counts \<Rightarrow> counts" where
  "set_count k n cs = (k, n) # filter (\<lambda>p. fst p \<noteq> k) cs"

function dedup_loop :: "counts \<Rightarrow> string \<Rightarrow> nat \<Rightarrow> string \<times> counts" where
  "dedup_loop cs col cur_count =
     (let cs' = set_count col (cur_count + 1) cs;
          col' = col @ ''.'' @ show_nat cur_count
      in if 0 < count_of cs' col' then dedup_loop cs' col' (count_of cs' col')
         else (col', cs'))"
  by pat_completeness auto
termination
proof (relation "measure (\<lambda>(cs, col, cur_count). length (filter (\<lambda>p. length col < length (fst p)) cs))")
  show "wf (measure (\<lambda>(cs, col, cur_count). length (filter (\<lambda>p. length col < length (fst p)) cs)))"
    by simp
next
  fix cs :: counts and col :: string and cur_count :: nat and cs' col'
  assume cs': "cs' = set_count col (cur_count + 1) cs"
    and col': "col' = col @ ''.'' @ show_nat cur_count"
    and pos: "0 < count_of cs' col'"
  let ?P = "\<lambda>p::string \<times> nat. length col' < length (fst p)"
  let ?Q = "\<lambda>p::string \<times> nat. length col < length (fst p)"
  have longer: "length col < length col'" unfolding col' by (simp del: show_nat.simps)
  from pos obtain n where "map_of cs' col' = Some n"
    by (auto simp: count_of_def split: option.splits)
  then have "(col', n) \<in> set cs'" by (rule map_of_SomeD)
  with longer have mem: "(col', n) \<in> set cs" unfolding cs' set_count_def by auto
  have "filter ?P cs' = filter ?P (filter (\<lambda>p. fst p \<noteq> col) cs)"
    unfolding cs' set_count_def using longer by simp
  also have "\<dots> = filter (\<lambda>p. fst p \<noteq> col) (filter ?P cs)"
    by (simp add: conj_commute)
  finally have "length (filter ?P cs') \<le> length (filter ?P cs)"
    by (simp only: length_filter_le)
  moreover have "filter ?P cs = filter ?P (filter ?Q cs)"
    using longer by (auto simp: filter_filter intro!: filter_cong)
  moreover have "length (filter ?P (filter ?Q cs)) < length (filter ?Q cs)"
    by (rule length_filter_less[of "(col', n)"]) (use mem longer in simp_all)
  ultimately have "length (filter ?P cs') < length (filter ?Q cs)" by simp
  then show "((cs', col', count_of cs' col'), (cs, col, cur_count))
      \<in> measure (\<lambda>(cs, col, cur_count). length (filter (\<lambda>p. length col < length (fst p)) cs))"
    by simp
qed

declare dedup_loop.simps [simp del]

definition dedup_one :: "counts \<Rightarrow> string \<Rightarrow> string \<times> counts" where
  "dedup_one cs col =
     (let cur_count = count_of cs col
      in if 0 < cur_count
         then (let (col', cs') = dedup_loop cs col cur_count in (col', set_count col' 1 cs'))
         else (col, set_count col 1 cs))"

fun dedup_from :: "counts \<Rightarrow> string list \<Rightarrow> string list" where
  "dedup_from cs [] = []"
| "dedup_from cs (col # names) =
     (let (col', cs') = dedup_one cs col in col' # dedup_from cs' names)"

definition dedup_names :: "string list \<Rightarrow> string list" where
  "dedup_names names = dedup_from [] names"

definition pad :: "nat \<Rightarrow> cell list \<Rightarrow> cell list" where
  "pad n cs = take n (cs @ replicate (n - length cs) Null)"

definition from_sheet :: "sheet \<Rightarrow> dataframe" where
  "from_sheet sh =
     (let names = dedup_names (header_names (header sh))
      in \<lparr>columns = names,
          rows = renumber (map (\<lambda>cs. map_of (zip names (pad (length names) cs))) (body sh))\<rparr>)"

definition read_excel :: "path \<Rightarrow> ref prog" where
  "read_excel p w =
     (case files w p of
        None \<Rightarrow> Inl (if p \<in> dirs w then IsADirectoryError else FileNotFoundError)
      | Some (Csv sh) \<Rightarrow> Inl ValueError
      | Some (Excel sh) \<Rightarrow> alloc (from_sheet sh) w)"

section \<open>Frame preparation: \<^verbatim>\<open>preparing_sample_frame.py\<close>\<close>

definition write_df_to_excel :: "ref \<Rightarrow> path \<Rightarrow> bool \<Rightarrow> unit prog" where
  "write_df_to_excel df outfile overwrite =
     bind (path_exists outfile) (\<lambda>ex.
       if ex \<and> \<not> overwrite
       then raise (FileExistsError
         (''The file '' @ outfile @ '' already exists and `overwrite` is False.'' @ [CHR 0x0A]
          @ ''Either change the output filename or rerun with `overwrite` as True.''))
       else to_excel df outfile True)"

definition merge_facility_ID :: "ref \<Rightarrow> path \<Rightarrow> bool \<Rightarrow> ref prog" where
  "merge_facility_ID df outfile overwrite =
     (let suffix_y = ''_merge'' in
      bind (load df) (\<lambda>d.
      bind (lift (select_columns d [''LocName'', ''FacilityID'', ''Merge_ID''])) (\<lambda>right.
      bind (lift (merge_left d right ''Merge_ID'' ''FacilityID'' suffix_y)) (\<lambda>m.
      bind (alloc m) (\<lambda>merged.
      bind (drop_inplace merged [''Merge_ID'' @ suffix_y]) (\<lambda>_.
      bind (write_df_to_excel merged outfile overwrite) (\<lambda>_.
      return merged)))))))"

definition merge_turnover_outlets :: "ref \<Rightarrow> path \<Rightarrow> bool \<Rightarrow> ref prog" where
  "merge_turnover_outlets df outfile overwrite =
     (let suffix_y = ''_loc2'' in
      bind (load df) (\<lambda>d.
      bind (lift (select_columns d [''FacilityID'', ''Sum_Turnov'', ''OutletCt''])) (\<lambda>right.
      bind (lift (merge_left d right ''FacilityID_merge'' ''FacilityID'' suffix_y)) (\<lambda>m.
      bind (alloc m) (\<lambda>merged.
      bind (drop_inplace merged [''Unnamed: 0'', ''FacilityID'' @ suffix_y]) (\<lambda>_.
      bind (write_df_to_excel merged outfile overwrite) (\<lambda>_.
      return merged)))))))"

definition postproc_turnover_df :: "ref \<Rightarrow> ref prog" where
  "postproc_turnover_df df =
     bind (copy_df df) (\<lambda>df_copy.
     bind (fillna_inplace df_copy (Num 0)) (\<lambda>_.
     bind (assign_op df_copy ''Total_TURNOV'' cell_add ''Sum_Turnov'' ''Sum_Turnov_loc2'') (\<lambda>_.
     bind (assign_op df_copy ''Total_OutletCt'' cell_add ''OutletCt'' ''OutletCt_loc2'') (\<lambda>_.
     bind (assign_op df_copy ''avg_TURNOV'' cell_div ''Total_TURNOV'' ''Total_OutletCt'') (\<lambda>_.
     return df_copy)))))"

definition save_df_duplicates :: "ref \<Rightarrow> string \<Rightarrow> path \<Rightarrow> bool \<Rightarrow> unit prog" where
  "save_df_duplicates df col outfile overwrite =
     bind (load df) (\<lambda>d.
     bind (lift (duplicated d col)) (\<lambda>duplicates.
     bind (alloc (select_rows d duplicates)) (\<lambda>selected.
     write_df_to_excel selected outfile overwrite)))"

text \<open>
  Line 157 of \<open>main\<close>: \<open>df.query("(Total_OutletCt >= 250) & (Merge_Num != 2)")\<close>.
  Both sides are computed for the whole table, then the rows where both hold are kept,
  with their index labels. \<open>query\<close> reports an unknown name as a \<open>NameError\<close>.
\<close>

definition query_size_role :: "dataframe \<Rightarrow> error + dataframe" where
  "query_size_role df =
     (if ''Total_OutletCt'' \<notin> set (columns df) then Inl (NameError ''Total_OutletCt'')
      else if ''Merge_Num'' \<notin> set (columns df) then Inl (NameError ''Merge_Num'')
      else case map_e (\<lambda>ir. cell_ge (cellat (snd ir) ''Total_OutletCt'') 250) (rows df) of
             Inl e \<Rightarrow> Inl e
           | Inr big \<Rightarrow>
               Inr (select_rows df
                 (map (\<lambda>(b, ir). b \<and> cell_ne (cellat (snd ir) ''Merge_Num'') 2) (zip big (rows df)))))"

definition main :: "path \<Rightarrow> bool \<Rightarrow> unit prog" where
  "main infile force =
     (let in_file = infile in
      bind (read_excel in_file) (\<lambda>locations.
      let out_file_ID_merge =
            joinpath (parent in_file) ''CPI_New_Sampling_Frame_TableToExcel__ID_Merge_2022.xlsx'' in
      bind (merge_facility_ID locations out_file_ID_merge force) (\<lambda>locations_merged.
      let out_file_turnover_merge =
            joinpath (parent in_file) ''CPI_New_Sampling_Frame_TableToExcel__Intermediate_2022.xlsx'' in
      bind (merge_turnover_outlets locations_merged out_file_turnover_merge force) (\<lambda>turnover_merged.
      bind (postproc_turnover_df turnover_merged) (\<lambda>turnover_merged.
      bind (write_df_to_excel turnover_merged
              (joinpath (parent in_file) ''CPI_New_Sampling_Frame_TableToExcel__Intermediate2_2022.xlsx'')
              force) (\<lambda>_.
      bind (bind (load turnover_merged) (\<lambda>d. bind (lift (query_size_role d)) alloc)) (\<lambda>turnover_merged.
      bind (write_df_to_excel turnover_merged
              (joinpath (parent in_file) ''CPI_New_Sampling_Frame_Draft_2022.xlsx'') force) (\<lambda>_.
      bind (save_df_duplicates turnover_merged ''Merge_ID''
              (joinpath (parent in_file) ''2022_duplicate_1.xlsx'') force) (\<lambda>_.
      save_df_duplicates turnover_merged ''FacilityID_merge''
              (joinpath (parent in_file) ''2022_duplicate_2.xlsx'') force)))))))))"

section \<open>Replacement sampling: \<^verbatim>\<open>sampling_code.py\<close>\<close>

text \<open>
  \<open>get_random_float(size)\<close>: one draw as a scalar when \<open>size == 1\<close>, an array of
  \<open>size\<close> draws otherwise; the draws are taken off the global stream.
\<close>

datatype rnd = Scalar rat | Array "rat list"

definition get_random_float :: "nat \<Rightarrow> rnd prog" where
  "get_random_float n w =
     (if n = 1 then Inr (Scalar (rand w (rpos w)), w\<lparr>rpos := rpos w + 1\<rparr>)
      else Inr (Array (map (rand w) [rpos w..<rpos w + n]), w\<lparr>rpos := rpos w + n\<rparr>))"

definition is_file_excel :: "path \<Rightarrow> bool" where
  "is_file_excel filename = list_ex (\<lambda>ext. suffix filename = ext) [''.xls'', ''.xlsx'']"

text \<open>\<open>df[c] = df[a] / divisor\<close> (a scalar divisor) and \<open>df[c] *= rnd_nums\<close>.\<close>

definition assign_div_scalar :: "ref \<Rightarrow> string \<Rightarrow> string \<Rightarrow> cell \<Rightarrow> unit prog" where
  "assign_div_scalar r c a divisor =
     bind (load r) (\<lambda>d.
     bind (lift (getitem d a)) (\<lambda>xs.
     bind (lift (map_e (\<lambda>x. cell_div x divisor) xs)) (\<lambda>vs.
     bind (lift (setitem d c vs)) (store r))))"

definition mul_rnd :: "cell list \<Rightarrow> rnd \<Rightarrow> error + cell list" where
  "mul_rnd vs r =
     (case r of
        Scalar x \<Rightarrow> map_e (\<lambda>v. cell_mul v (Num x)) vs
      | Array xs \<Rightarrow> if length xs \<noteq> length vs then Inl ValueError
                    else zip_op cell_mul vs (map Num xs))"

definition imul_rnd :: "ref \<Rightarrow> string \<Rightarrow> rnd \<Rightarrow> unit prog" where
  "imul_rnd r c rnd_nums =
     bind (load r) (\<lambda>d.
     bind (lift (getitem d c)) (\<lambda>xs.
     bind (lift (mul_rnd xs rnd_nums)) (\<lambda>vs.
     bind (lift (setitem d c vs)) (store r))))"

definition sort_values_inplace :: "ref \<Rightarrow> string \<Rightarrow> unit prog" where
  "sort_values_inplace r c = bind (load r) (\<lambda>d. bind (lift (sort_values_desc d c)) (store r))"

definition generate_replacement_locations :: "ref \<Rightarrow> cell \<Rightarrow> int \<Rightarrow> ref prog" where
  "generate_replacement_locations df region n_locations =
     bind (copy_df df) (\<lambda>df_copy.
     bind (load df_copy) (\<lambda>d.
     bind (lift (getitem d ''Region'')) (\<lambda>reg.
     bind (alloc (reset_index (select_rows d (map (\<lambda>v. cell_eq v region) reg)))) (\<lambda>df_regional.
     bind (bind (load df_regional) (\<lambda>d. bind (lift (getitem d ''Sum_Turnov'')) (\<lambda>xs. lift (series_sum xs))))
       (\<lambda>total_turnover.
     bind (assign_div_scalar df_regional ''weight'' ''Sum_Turnov'' total_turnover) (\<lambda>_.
     bind (bind (load df_regional) (\<lambda>d. get_random_float (length (rows d)))) (\<lambda>rnd_nums.
     bind (imul_rnd df_regional ''weight'' rnd_nums) (\<lambda>_.
     bind (sort_values_inplace df_regional ''weight'') (\<lambda>_.
     bind (drop_inplace df_regional [''weight'']) (\<lambda>_.
     bind (load df_regional) (\<lambda>d. alloc (head_rows d n_locations))))))))))))"

text \<open>
  \<open>write_df\<close> builds its error message from \<open>args.outfile\<close>. \<open>args\<close> is no parameter
  of the function but a module global, which only exists when the file runs as a script
  (it is bound under \<open>if __name__ == "__main__"\<close>). The model passes that global
  explicitly: \<open>None\<close> when it is unbound.
\<close>

record namespace =
  ns_infile :: string
  ns_n_locations :: int
  ns_outfile :: string
  ns_force :: bool

definition dir_chain :: "path \<Rightarrow> path list" where
  "dir_chain p =
     map (\<lambda>n. take n p) (filter (\<lambda>n. n = length p \<or> p ! n = CHR ''/'') [1..<Suc (length p)])"

text \<open>\<open>path.mkdir(parents=True)\<close>.\<close>

definition mkdir_parents :: "path \<Rightarrow> unit prog" where
  "mkdir_parents p w =
     (if list_ex (\<lambda>a. files w a \<noteq> None) (dir_chain p) then Inl NotADirectoryError
      else Inr ((), w\<lparr>dirs := dirs w \<union> set (dir_chain p)\<rparr>))"

definition write_df :: "namespace option \<Rightarrow> ref \<Rightarrow> path \<Rightarrow> bool \<Rightarrow> unit prog" where
  "write_df args df out_file overwrite =
     bind (path_exists (parent out_file)) (\<lambda>parent_exists.
     bind (if \<not> parent_exists then mkdir_parents (parent out_file) else return ()) (\<lambda>_.
     bind (path_exists out_file) (\<lambda>ex.
     bind (if ex \<and> \<not> overwrite
           then (case args of
                   None \<Rightarrow> raise (NameError ''args'')
                 | Some a \<Rightarrow> raise (FileExistsError
                     (''The output file '' @ ns_outfile a @ '' already exists and `force` is False.''
                      @ [CHR 0x0A]
                      @ ''Either rerun with the `force` option or select a different output filename.'')))
           else return ()) (\<lambda>_.
     if is_file_excel out_file then to_excel df out_file False
     else to_csv df out_file False))))"

section \<open>Observing a run\<close>

text \<open>
  What a caller sees of a run from a given state: the value or the exception
  (\<open>outcome\<close>), a file afterwards (\<open>file_after\<close>), the table behind the returned
  reference (\<open>table_after\<close>).
\<close>

definition outcome :: "'a prog \<Rightarrow> world \<Rightarrow> error + 'a" where
  "outcome m w = (case m w of Inl e \<Rightarrow> Inl e | Inr (x, w') \<Rightarrow> Inr x)"

definition file_after :: "'a prog \<Rightarrow> world \<Rightarrow> path \<Rightarrow> error + content option" where
  "file_after m w p = (case m w of Inl e \<Rightarrow> Inl e | Inr (x, w') \<Rightarrow> Inr (files w' p))"

definition table_of :: "dataframe \<Rightarrow> string list \<times> (nat \<times> cell list) list" where
  "table_of d = (columns d, map (\<lambda>ir. (fst ir, map (cellat (snd ir)) (columns d))) (rows d))"

definition table_after :: "ref prog \<Rightarrow> world \<Rightarrow> error + string list \<times> (nat \<times> cell list) list" where
  "table_after m w = (case m w of Inl e \<Rightarrow> Inl e | Inr (r, w') \<Rightarrow> Inr (table_of (heap w' r)))"

section \<open>Example tables and states\<close>

definition empty_df :: dataframe where
  "empty_df = \<lparr>columns = [], rows = []\<rparr>"

definition input_path :: path where
  "input_path = ''/data/SampleFrame2022.xls''"

definition draft_path :: path where
  "draft_path = ''/data/CPI_New_Sampling_Frame_Draft_2022.xlsx''"

text \<open>The two-row table of the end-to-end example, with the five columns it lists.\<close>

definition sheet5 :: sheet where
  "sheet5 =
     \<lparr>header = [''FacilityID'', ''Merge_ID'', ''Merge_Num'', ''Sum_Turnov'', ''OutletCt''],
      body = [[Num 1, Num 2, Num 1, Num 100, Num 300],
              [Num 2, Null, Num 2, Num 50, Num 100]]\<rparr>"

text \<open>The same table with a \<open>LocName\<close> column.\<close>

definition sheet6 :: sheet where
  "sheet6 =
     \<lparr>header = [''FacilityID'', ''LocName'', ''Merge_ID'', ''Merge_Num'', ''Sum_Turnov'', ''OutletCt''],
      body = [[Num 1, Str ''A'', Num 2, Num 1, Num 100, Num 300],
              [Num 2, Str ''B'', Null, Num 2, Num 50, Num 100]]\<rparr>"

text \<open>
  The same table as a sheet that was saved with its index: a first column under a
  blank header cell, which \<open>read_excel\<close> names \<open>Unnamed: 0\<close>.
\<close>

definition sheet7 :: sheet where
  "sheet7 =
     \<lparr>header = [[], ''FacilityID'', ''LocName'', ''Merge_ID'', ''Merge_Num'', ''Sum_Turnov'', ''OutletCt''],
      body = [[Num 0, Num 1, Str ''A'', Num 2, Num 1, Num 100, Num 300],
              [Num 1, Num 2, Str ''B'', Null, Num 2, Num 50, Num 100]]\<rparr>"

text \<open>A fresh process: no dataframe yet, the input file in an existing directory.\<close>

definition world_of :: "sheet \<Rightarrow> world" where
  "world_of sh =
     \<lparr>heap = (\<lambda>_. empty_df), nxt = 0,
      files = [input_path \<mapsto> Excel sh], dirs = {''/data''},
      rand = (\<lambda>_. 1 / 2), rpos = 0\<rparr>"

text \<open>
  A state of the sampling script used as a library: one table of three locations behind
  reference 0, and an output file that already exists.
\<close>

definition locations3 :: dataframe where
  "locations3 =
     \<lparr>columns = [''FacilityID'', ''Region'', ''Sum_Turnov''],
      rows = [(0, [''FacilityID'' \<mapsto> Num 1, ''Region'' \<mapsto> Str ''North'', ''Sum_Turnov'' \<mapsto> Num 900]),
              (1, [''FacilityID'' \<mapsto> Num 2, ''Region'' \<mapsto> Str ''North'', ''Sum_Turnov'' \<mapsto> Num 100]),
              (2, [''FacilityID'' \<mapsto> Num 3, ''Region'' \<mapsto> Str ''South'', ''Sum_Turnov'' \<mapsto> Num 40])]\<rparr>"

definition out_path :: path where
  "out_path = ''/data/Replacement locations.xlsx''"

definition old_sheet :: sheet where
  "old_sheet = \<lparr>header = [''old''], body = [[Num 7]]\<rparr>"

definition sampling_world :: world where
  "sampling_world =
     \<lparr>heap = (\<lambda>_. empty_df)(0 := locations3), nxt = 1,
      files = [out_path \<mapsto> Excel old_sheet], dirs = {''/data''},
      rand = (\<lambda>n. 1 / (2 + of_nat n)), rpos = 0\<rparr>"

text \<open>
  The listed columns exist and hold no string: what the arithmetic of a stage needs to
  go through.
\<close>

definition numeric_cols :: "dataframe \<Rightarrow> string list \<Rightarrow> bool" where
  "numeric_cols df cs \<longleftrightarrow>
     list_all (\<lambda>c. c \<in> set (columns df)) cs
     \<and> list_all (\<lambda>ir. list_all (\<lambda>c. \<not> is_str (cellat (snd ir) c)) cs) (rows df)"

text \<open>
  \<open>col_set c P\<close> relates a row to the row after a column assignment: same index label,
  cell \<open>c\<close> set to a value that \<open>P\<close> allows.
\<close>

definition col_set :: "string \<Rightarrow> (row \<Rightarrow> cell \<Rightarrow> bool) \<Rightarrow> nat \<times> row \<Rightarrow> nat \<times> row \<Rightarrow> bool" where
  "col_set c P ir ir' \<longleftrightarrow> fst ir' = fst ir \<and> (\<exists>v. P (snd ir) v \<and> snd ir' = (snd ir)(c \<mapsto> v))"

text \<open>
  A filled row and the row \<open>postproc_turnover_df\<close> makes of it: the two sums and their
  quotient are stored under the three new labels.
\<close>

definition post_row :: "nat \<times> row \<Rightarrow> nat \<times> row \<Rightarrow> bool" where
  "post_row ir ir' \<longleftrightarrow>
     fst ir' = fst ir \<and>
     (\<exists>t ou av.
        cell_add (cellat (snd ir) ''Sum_Turnov'') (cellat (snd ir) ''Sum_Turnov_loc2'') = Inr t
      \<and> cell_add (cellat (snd ir) ''OutletCt'') (cellat (snd ir) ''OutletCt_loc2'') = Inr ou
      \<and> cell_div t ou = Inr av
      \<and> snd ir' = (snd ir)(''Total_TURNOV'' \<mapsto> t, ''Total_OutletCt'' \<mapsto> ou, ''avg_TURNOV'' \<mapsto> av))"

text \<open>
  A merged table of three locations behind reference 0: an acceptor with its donor's
  values, the donor, and a location without outlets.
\<close>

definition merged3 :: dataframe where
  "merged3 =
     \<lparr>columns = [''FacilityID'', ''Merge_Num'', ''Sum_Turnov'', ''OutletCt'', ''Sum_Turnov_loc2'', ''OutletCt_loc2''],
      rows = [(0, [''FacilityID'' \<mapsto> Num 1, ''Merge_Num'' \<mapsto> Num 1, ''Sum_Turnov'' \<mapsto> Num 100,
                   ''OutletCt'' \<mapsto> Num 300, ''Sum_Turnov_loc2'' \<mapsto> Num 50, ''OutletCt_loc2'' \<mapsto> Num 100]),
              (1, [''FacilityID'' \<mapsto> Num 2, ''Merge_Num'' \<mapsto> Num 2, ''Sum_Turnov'' \<mapsto> Num 50,
                   ''OutletCt'' \<mapsto> Num 100, ''Sum_Turnov_loc2'' \<mapsto> Null, ''OutletCt_loc2'' \<mapsto> Null]),
              (2, [''FacilityID'' \<mapsto> Num 3, ''Merge_Num'' \<mapsto> Num 1, ''Sum_Turnov'' \<mapsto> Num 10,
                   ''OutletCt'' \<mapsto> Num 0, ''Sum_Turnov_loc2'' \<mapsto> Null, ''OutletCt_loc2'' \<mapsto> Null])]\<rparr>"

definition merged_world :: world where
  "merged_world =
     \<lparr>heap = (\<lambda>_. empty_df)(0 := merged3), nxt = 1,
      files = Map.empty, dirs = {''/data''}, rand = (\<lambda>_. 1 / 2), rpos = 0\<rparr>"

text \<open>Four postprocessed locations: a donor, and acceptors of 400, 249 and 250 outlets.\<close>

definition postprocessed3 :: dataframe where
  "postprocessed3 =
     \<lparr>columns = [''FacilityID'', ''Merge_Num'', ''Total_OutletCt''],
      rows = [(0, [''FacilityID'' \<mapsto> Num 1, ''Merge_Num'' \<mapsto> Num 1, ''Total_OutletCt'' \<mapsto> Num 400]),
              (1, [''FacilityID'' \<mapsto> Num 2, ''Merge_Num'' \<mapsto> Num 2, ''Total_OutletCt'' \<mapsto> Num 500]),
              (2, [''FacilityID'' \<mapsto> Num 3, ''Merge_Num'' \<mapsto> Num 1, ''Total_OutletCt'' \<mapsto> Num 249]),
              (3, [''FacilityID'' \<mapsto> Num 4, ''Merge_Num'' \<mapsto> Num 1, ''Total_OutletCt'' \<mapsto> Num 250])]\<rparr>"

subsection \<open>Inputs are not mutated\<close>

text \<open>
  \<open>keeps n m Q\<close>: started in a state where the objects below \<open>n\<close> are allocated, a
  successful run of \<open>m\<close> leaves each of them as it was, and its result satisfies \<open>Q\<close>.
\<close>

definition keeps :: "nat \<Rightarrow> 'a prog \<Rightarrow> ('a \<Rightarrow> bool) \<Rightarrow> bool" where
  "keeps n m Q \<longleftrightarrow>
     (\<forall>w x w'. n \<le> nxt w \<longrightarrow> m w = Inr (x, w') \<longrightarrow>
        n \<le> nxt w' \<and> (\<forall>q<n. heap w' q = heap w q) \<and> Q x)"

text \<open>
  The table \<open>read_excel\<close> makes of the example sheet that was saved with its index,
  behind reference 0, in a state without output files.
\<close>

definition frame7 :: dataframe where
  "frame7 =
     \<lparr>columns = [''Unnamed: 0'', ''FacilityID'', ''LocName'', ''Merge_ID'', ''Merge_Num'',
                 ''Sum_Turnov'', ''OutletCt''],
      rows = [(0, [''Unnamed: 0'' \<mapsto> Num 0, ''FacilityID'' \<mapsto> Num 1, ''LocName'' \<mapsto> Str ''A'',
                   ''Merge_ID'' \<mapsto> Num 2, ''Merge_Num'' \<mapsto> Num 1, ''Sum_Turnov'' \<mapsto> Num 100,
                   ''OutletCt'' \<mapsto> Num 300]),
              (1, [''Unnamed: 0'' \<mapsto> Num 1, ''FacilityID'' \<mapsto> Num 2, ''LocName'' \<mapsto> Str ''B'',
                   ''Merge_ID'' \<mapsto> Null, ''Merge_Num'' \<mapsto> Num 2, ''Sum_Turnov'' \<mapsto> Num 50,
                   ''OutletCt'' \<mapsto> Num 100])]\<rparr>"

definition frame_world :: world where
  "frame_world =
     \<lparr>heap = (\<lambda>_. empty_df)(0 := frame7), nxt = 1,
      files = Map.empty, dirs = {''/data''}, rand = (\<lambda>_. 1 / 2), rpos = 0\<rparr>"

definition id_merge_path :: path where
  "id_merge_path = ''/data/CPI_New_Sampling_Frame_TableToExcel__ID_Merge_2022.xlsx''"

definition intermediate_path :: path where
  "intermediate_path = ''/data/CPI_New_Sampling_Frame_TableToExcel__Intermediate_2022.xlsx''"

text \<open>
  The labels of the table read back from file \<open>p\<close> after a run that the table behind
  the returned reference does not have.
\<close>

definition gained_columns :: "ref prog \<Rightarrow> path \<Rightarrow> world \<Rightarrow> error + string list" where
  "gained_columns m p w =
     (case m w of Inl e \<Rightarrow> Inl e
      | Inr (r, w') \<Rightarrow>
          (case read_excel p w' of Inl e \<Rightarrow> Inl e
           | Inr (r', w'') \<Rightarrow>
               Inr (filter (\<lambda>c. c \<notin> set (columns (heap w' r))) (columns (heap w'' r')))))"

section \<open>Properties\<close>

subsection \<open>The end-to-end example\<close>

text \<open>
  C1 (code defect). The two-row table of the example, with the columns every stage
  reads (\<open>LocName\<close> included), is the input of \<open>main\<close>; no output file exists. The run
  does not reach the filter: \<open>merge_turnover_outlets\<close> drops a column \<open>Unnamed: 0\<close>
  from the table \<open>merge_facility_ID\<close> handed over in memory, which has no such column,
  and raises \<open>KeyError\<close>.
\<close>

theorem main_example_raises_key_error:
  "outcome (main input_path False) (world_of sheet6) = Inl (KeyError ''Unnamed: 0'')"
  by code_simp

text \<open>With the five columns the example lists, \<open>merge_facility_ID\<close> already misses \<open>LocName\<close>.\<close>

lemma main_example_five_columns:
  "outcome (main input_path False) (world_of sheet5) = Inl (KeyError ''LocName'')"
  by code_simp

text \<open>
  Only a sheet with a blank-headed first column, as \<open>to_excel\<close> writes it with the
  index, gets through; then the draft frame holds exactly the row of facility 1, with
  the totals 150 and 400 and the average 0.375 of the example.
\<close>

lemma main_example_with_index_column:
  "outcome (main input_path False) (world_of sheet7) = Inr ()
   \<and> file_after (main input_path False) (world_of sheet7) draft_path =
     Inr (Some (Excel
       \<lparr>header = [[], ''FacilityID'', ''LocName'', ''Merge_ID'', ''Merge_Num'', ''Sum_Turnov'',
                  ''OutletCt'', ''LocName_merge'', ''FacilityID_merge'', ''Sum_Turnov_loc2'',
                  ''OutletCt_loc2'', ''Total_TURNOV'', ''Total_OutletCt'', ''avg_TURNOV''],
        body = [[Num 0, Num 1, Str ''A'', Num 2, Num 1, Num 100, Num 300, Str ''B'', Num 2,
                 Num 50, Num 100, Num 150, Num 400, Num (375 / 1000)]]\<rparr>))"
  by code_simp

text \<open>In general: \<open>merge_turnover_outlets\<close> returns only for a table with that column.\<close>

lemma merge_turnover_outlets_needs_unnamed:
  assumes "merge_turnover_outlets df outfile overwrite w = Inr (r, w')"
  shows "''Unnamed: 0'' \<in> set (columns (heap w df))"
proof -
  let ?d = "heap w df"
  from assms obtain right m where
    sel: "select_columns ?d [''FacilityID'', ''Sum_Turnov'', ''OutletCt''] = Inr right" and
    mer: "merge_left ?d right ''FacilityID_merge'' ''FacilityID'' ''_loc2'' = Inr m" and
    drp: "\<exists>d'. drop_columns m [''Unnamed: 0'', ''FacilityID_loc2''] = Inr d'"
    by (auto simp: merge_turnover_outlets_def Let_def bind_def load_def lift_def alloc_def
        drop_inplace_def store_def split: sum.splits)
  from sel have rc: "columns right = [''FacilityID'', ''Sum_Turnov'', ''OutletCt'']"
    and sub: "''FacilityID'' \<in> set (columns ?d)" "''Sum_Turnov'' \<in> set (columns ?d)"
      "''OutletCt'' \<in> set (columns ?d)"
    by (auto simp: select_columns_def split: list.splits if_splits)
  from mer have cm: "columns m = columns ?d @ map (right_label (columns ?d) ''_loc2'') (columns right)"
    by (auto simp: merge_left_def Let_def split: if_splits)
  from drp have "''Unnamed: 0'' \<in> set (columns m)"
    by (auto simp: drop_columns_def split: list.splits if_splits)
  with cm rc sub show ?thesis by (auto simp: right_label_def)
qed

subsection \<open>The overwrite guard\<close>

text \<open>
  C7 (code defect). \<open>write_df\<close> is called as a library function (no global \<open>args\<close>) on an
  output path that exists, with \<open>overwrite\<close> off. It raises \<open>NameError\<close> for \<open>args\<close>
  instead of the file-exists error with the path that \<open>write_df_to_excel\<close> raises.
\<close>

theorem write_df_existing_file_unbound_args:
  "outcome (write_df None 0 out_path False) sampling_world = Inl (NameError ''args'')"
  by code_simp

subsection \<open>Turnover postprocessing\<close>

lemma map_e_Inr: "map_e f xs = Inr ys \<Longrightarrow> list_all2 (\<lambda>x y. f x = Inr y) xs ys"
  by (induction xs arbitrary: ys) (auto split: sum.splits)

lemma map_e_total: "(\<And>x. x \<in> set xs \<Longrightarrow> \<exists>y. f x = Inr y) \<Longrightarrow> \<exists>ys. map_e f xs = Inr ys"
proof (induction xs)
  case Nil
  then show ?case by simp
next
  case (Cons x xs)
  then obtain y where "f x = Inr y" by force
  moreover from Cons obtain ys where "map_e f xs = Inr ys" by force
  ultimately show ?case by simp
qed

lemma map_e_Inl: "map_e f xs = Inl e \<Longrightarrow> \<exists>x \<in> set xs. f x = Inl e"
  by (induction xs) (auto split: sum.splits)

lemma list_all2_zip_map:
  "list_all2 P xs vs \<Longrightarrow>
   list_all2 (\<lambda>x y. \<exists>v. P x v \<and> y = g x v) xs (map (\<lambda>(x, v). g x v) (zip xs vs))"
  by (induction rule: list_all2_induct) auto

lemma assign_op_Inr:
  assumes "assign_op r c f a b w = Inr (u, w')"
  shows "\<exists>d'. w' = w\<lparr>heap := (heap w)(r := d')\<rparr>
           \<and> columns d' = (if c \<in> set (columns (heap w r)) then columns (heap w r)
                            else columns (heap w r) @ [c])
           \<and> list_all2 (col_set c (\<lambda>x v. f (cellat x a) (cellat x b) = Inr v))
                (rows (heap w r)) (rows d')"
proof -
  let ?d = "heap w r"
  from assms obtain vs where
    ab: "a \<in> set (columns ?d)" "b \<in> set (columns ?d)" and
    vs: "zip_op f (map (\<lambda>ir. cellat (snd ir) a) (rows ?d)) (map (\<lambda>ir. cellat (snd ir) b) (rows ?d)) = Inr vs" and
    len: "length vs = length (rows ?d)" and
    w': "w' = w\<lparr>heap := (heap w)(r := \<lparr>columns = (if c \<in> set (columns ?d) then columns ?d else columns ?d @ [c]),
                rows = map (\<lambda>(ir, v). (fst ir, (snd ir)(c \<mapsto> v))) (zip (rows ?d) vs)\<rparr>)\<rparr>"
    by (auto simp: assign_op_def bind_def load_def lift_def store_def getitem_def setitem_def
        split: sum.splits if_splits)
  from vs have "list_all2 (\<lambda>xy v. f (fst xy) (snd xy) = Inr v)
      (zip (map (\<lambda>ir. cellat (snd ir) a) (rows ?d)) (map (\<lambda>ir. cellat (snd ir) b) (rows ?d))) vs"
    unfolding zip_op_def by (drule_tac map_e_Inr) (simp add: case_prod_beta)
  then have "list_all2 (\<lambda>ir v. f (cellat (snd ir) a) (cellat (snd ir) b) = Inr v) (rows ?d) vs"
    by (simp add: zip_map_map list_all2_map1 zip_same_conv_map)
  from list_all2_zip_map[OF this, of "\<lambda>ir v. (fst ir, (snd ir)(c \<mapsto> v))"]
  have "list_all2 (col_set c (\<lambda>x v. f (cellat x a) (cellat x b) = Inr v)) (rows ?d)
          (map (\<lambda>(ir, v). (fst ir, (snd ir)(c \<mapsto> v))) (zip (rows ?d) vs))"
    by (rule list_all2_mono) (auto simp: col_set_def)
  with w' show ?thesis by auto
qed

lemma assign_op_total:
  assumes "a \<in> set (columns (heap w r))" "b \<in> set (columns (heap w r))"
    and "\<And>ir. ir \<in> set (rows (heap w r)) \<Longrightarrow> \<exists>v. f (cellat (snd ir) a) (cellat (snd ir) b) = Inr v"
  shows "\<exists>w'. assign_op r c f a b w = Inr ((), w')"
proof -
  let ?d = "heap w r"
  let ?xy = "zip (map (\<lambda>ir. cellat (snd ir) a) (rows ?d)) (map (\<lambda>ir. cellat (snd ir) b) (rows ?d))"
  have "\<exists>vs. map_e (\<lambda>(x, y). f x y) ?xy = Inr vs"
    by (rule map_e_total) (use assms(3) in \<open>auto simp: zip_map_map zip_same_conv_map\<close>)
  then obtain vs where vs: "map_e (\<lambda>(x, y). f x y) ?xy = Inr vs" ..
  from map_e_Inr[OF this] have "length vs = length (rows ?d)"
    by (auto dest: list_all2_lengthD)
  with vs assms(1,2) show ?thesis
    by (simp add: assign_op_def bind_def load_def lift_def store_def getitem_def setitem_def zip_op_def)
qed

lemma cell_add_numeric:
  "\<not> is_str a \<Longrightarrow> \<not> is_str b \<Longrightarrow> \<exists>v. cell_add a b = Inr v \<and> \<not> is_str v"
  by (cases a; cases b) (simp_all add: is_str_def)

lemma cell_div_numeric:
  "\<not> is_str a \<Longrightarrow> \<not> is_str b \<Longrightarrow> \<exists>v. cell_div a b = Inr v \<and> \<not> is_str v"
  by (cases a; cases b) (simp_all add: is_str_def sign_inf_def)

lemma cell_add_Inr_numeric: "cell_add a b = Inr v \<Longrightarrow> \<not> is_str a \<Longrightarrow> \<not> is_str v"
  by (cases a; cases b) (auto simp: is_str_def)

lemma is_str_fill [simp]: "is_str (fill_cell (Num 0) x) = is_str x"
  by (simp add: fill_cell_def is_str_def)

lemma cellat_fill: "cellat (map_option (fill_cell (Num 0)) \<circ> x) c = (case x c of None \<Rightarrow> Null | Some v \<Rightarrow> fill_cell (Num 0) v)"
  by (simp add: cellat_def split: option.splits)

lemma is_str_cellat_fill [simp]:
  "is_str (cellat (map_option (fill_cell (Num 0)) \<circ> x) c) = is_str (cellat x c)"
  by (simp add: cellat_def is_str_def fill_cell_def split: option.splits)

lemma postproc_unfold:
  "postproc_turnover_df r w =
     bind (assign_op (nxt w) ''Total_TURNOV'' cell_add ''Sum_Turnov'' ''Sum_Turnov_loc2'') (\<lambda>_.
     bind (assign_op (nxt w) ''Total_OutletCt'' cell_add ''OutletCt'' ''OutletCt_loc2'') (\<lambda>_.
     bind (assign_op (nxt w) ''avg_TURNOV'' cell_div ''Total_TURNOV'' ''Total_OutletCt'') (\<lambda>_.
     return (nxt w))))
     (w\<lparr>nxt := Suc (nxt w), heap := (heap w)(nxt w := fillna (Num 0) (heap w r))\<rparr>)"
  by (simp add: postproc_turnover_df_def copy_df_def bind_def load_def alloc_def
      fillna_inplace_def store_def)

lemma post_row_compose:
  assumes "col_set ''Total_TURNOV'' (\<lambda>x v. cell_add (cellat x ''Sum_Turnov'') (cellat x ''Sum_Turnov_loc2'') = Inr v) a b"
    and "col_set ''Total_OutletCt'' (\<lambda>x v. cell_add (cellat x ''OutletCt'') (cellat x ''OutletCt_loc2'') = Inr v) b c"
    and "col_set ''avg_TURNOV'' (\<lambda>x v. cell_div (cellat x ''Total_TURNOV'') (cellat x ''Total_OutletCt'') = Inr v) c e"
  shows "post_row a e"
  using assms by (auto simp: col_set_def post_row_def cellat_def)

lemma postproc_Inr:
  assumes "postproc_turnover_df r w = Inr (r', w')"
  shows "r' = nxt w \<and> nxt w' = Suc (nxt w) \<and> files w' = files w \<and> dirs w' = dirs w
         \<and> (\<forall>q. q \<noteq> nxt w \<longrightarrow> heap w' q = heap w q)
         \<and> list_all2 post_row (rows (fillna (Num 0) (heap w r))) (rows (heap w' r'))"
proof -
  let ?w1 = "w\<lparr>nxt := Suc (nxt w), heap := (heap w)(nxt w := fillna (Num 0) (heap w r))\<rparr>"
  from assms obtain w2 w3 where
    s1: "assign_op (nxt w) ''Total_TURNOV'' cell_add ''Sum_Turnov'' ''Sum_Turnov_loc2'' ?w1 = Inr ((), w2)" and
    s2: "assign_op (nxt w) ''Total_OutletCt'' cell_add ''OutletCt'' ''OutletCt_loc2'' w2 = Inr ((), w3)" and
    s3: "assign_op (nxt w) ''avg_TURNOV'' cell_div ''Total_TURNOV'' ''Total_OutletCt'' w3 = Inr ((), w')" and
    r': "r' = nxt w"
    unfolding postproc_unfold by (auto simp: bind_def return_def split: sum.splits)
  from assign_op_Inr[OF s1] obtain d1 where
    w2: "w2 = ?w1\<lparr>heap := (heap ?w1)(nxt w := d1)\<rparr>" and
    l1: "list_all2 (col_set ''Total_TURNOV'' (\<lambda>x v. cell_add (cellat x ''Sum_Turnov'') (cellat x ''Sum_Turnov_loc2'') = Inr v))
           (rows (fillna (Num 0) (heap w r))) (rows d1)"
    by auto
  from assign_op_Inr[OF s2] w2 obtain d2 where
    w3: "w3 = w2\<lparr>heap := (heap w2)(nxt w := d2)\<rparr>" and
    l2: "list_all2 (col_set ''Total_OutletCt'' (\<lambda>x v. cell_add (cellat x ''OutletCt'') (cellat x ''OutletCt_loc2'') = Inr v))
           (rows d1) (rows d2)"
    by auto
  from assign_op_Inr[OF s3] w3 obtain d3 where
    w': "w' = w3\<lparr>heap := (heap w3)(nxt w := d3)\<rparr>" and
    l3: "list_all2 (col_set ''avg_TURNOV'' (\<lambda>x v. cell_div (cellat x ''Total_TURNOV'') (cellat x ''Total_OutletCt'') = Inr v))
           (rows d2) (rows d3)"
    by auto
  have l12: "list_all2 (\<lambda>a c. \<exists>b.
        col_set ''Total_TURNOV'' (\<lambda>x v. cell_add (cellat x ''Sum_Turnov'') (cellat x ''Sum_Turnov_loc2'') = Inr v) a b
      \<and> col_set ''Total_OutletCt'' (\<lambda>x v. cell_add (cellat x ''OutletCt'') (cellat x ''OutletCt_loc2'') = Inr v) b c)
      (rows (fillna (Num 0) (heap w r))) (rows d2)"
    by (rule list_all2_trans[OF _ l1 l2]) blast
  have "list_all2 post_row (rows (fillna (Num 0) (heap w r))) (rows d3)"
    by (rule list_all2_trans[OF _ l12 l3]) (blast intro: post_row_compose)
  with r' w' w3 w2 show ?thesis by simp
qed

lemma list_all2_partner:
  "list_all2 P xs ys \<Longrightarrow> y \<in> set ys \<Longrightarrow> \<exists>x \<in> set xs. P x y"
  by (induction rule: list_all2_induct) auto

lemma numeric_colsD:
  "numeric_cols df cs \<Longrightarrow> c \<in> set cs \<Longrightarrow> c \<in> set (columns df)"
  "numeric_cols df cs \<Longrightarrow> c \<in> set cs \<Longrightarrow> ir \<in> set (rows df) \<Longrightarrow> \<not> is_str (cellat (snd ir) c)"
  by (auto simp: numeric_cols_def list_all_iff)

lemma numeric_cols_fillna:
  "numeric_cols df cs \<Longrightarrow> numeric_cols (fillna (Num 0) df) cs"
  by (auto simp: numeric_cols_def list_all_iff fillna_def)

lemma postproc_total:
  assumes num: "numeric_cols (heap w r) [''Sum_Turnov'', ''Sum_Turnov_loc2'', ''OutletCt'', ''OutletCt_loc2'']"
  shows "\<exists>r' w'. postproc_turnover_df r w = Inr (r', w')"
proof -
  let ?cs = "[''Sum_Turnov'', ''Sum_Turnov_loc2'', ''OutletCt'', ''OutletCt_loc2'']"
  let ?d0 = "fillna (Num 0) (heap w r)"
  let ?w1 = "w\<lparr>nxt := Suc (nxt w), heap := (heap w)(nxt w := ?d0)\<rparr>"
  let ?P1 = "\<lambda>x v. cell_add (cellat x ''Sum_Turnov'') (cellat x ''Sum_Turnov_loc2'') = Inr v"
  let ?P2 = "\<lambda>x v. cell_add (cellat x ''OutletCt'') (cellat x ''OutletCt_loc2'') = Inr v"
  from num have num0: "numeric_cols ?d0 ?cs" by (rule numeric_cols_fillna)
  have nn: "\<And>c ir. c \<in> set ?cs \<Longrightarrow> ir \<in> set (rows ?d0) \<Longrightarrow> \<not> is_str (cellat (snd ir) c)"
    using numeric_colsD(2)[OF num0] by blast
  have h1: "heap ?w1 (nxt w) = ?d0" by simp
  have "\<exists>w2. assign_op (nxt w) ''Total_TURNOV'' cell_add ''Sum_Turnov'' ''Sum_Turnov_loc2'' ?w1 = Inr ((), w2)"
  proof (rule assign_op_total)
    show "''Sum_Turnov'' \<in> set (columns (heap ?w1 (nxt w)))"
      unfolding h1 using num0 by (rule numeric_colsD) simp
    show "''Sum_Turnov_loc2'' \<in> set (columns (heap ?w1 (nxt w)))"
      unfolding h1 using num0 by (rule numeric_colsD) simp
    fix ir assume "ir \<in> set (rows (heap ?w1 (nxt w)))"
    then have "ir \<in> set (rows ?d0)" by simp
    then have "\<not> is_str (cellat (snd ir) ''Sum_Turnov'')" "\<not> is_str (cellat (snd ir) ''Sum_Turnov_loc2'')"
      by (simp_all add: nn)
    then show "\<exists>v. cell_add (cellat (snd ir) ''Sum_Turnov'') (cellat (snd ir) ''Sum_Turnov_loc2'') = Inr v"
      using cell_add_numeric by blast
  qed
  then obtain w2 where s1: "assign_op (nxt w) ''Total_TURNOV'' cell_add ''Sum_Turnov'' ''Sum_Turnov_loc2'' ?w1 = Inr ((), w2)" ..
  from assign_op_Inr[OF s1] obtain d1 where
    w2: "w2 = ?w1\<lparr>heap := (heap ?w1)(nxt w := d1)\<rparr>" and
    c1: "columns d1 = (if ''Total_TURNOV'' \<in> set (columns ?d0) then columns ?d0 else columns ?d0 @ [''Total_TURNOV''])" and
    l1: "list_all2 (col_set ''Total_TURNOV'' ?P1) (rows ?d0) (rows d1)"
    by auto
  have h2: "heap w2 (nxt w) = d1" using w2 by simp
  have in1: "\<And>c. c \<in> set (columns ?d0) \<Longrightarrow> c \<in> set (columns d1)" using c1 by auto
  have tt1: "''Total_TURNOV'' \<in> set (columns d1)" using c1 by auto
  have "\<exists>w3. assign_op (nxt w) ''Total_OutletCt'' cell_add ''OutletCt'' ''OutletCt_loc2'' w2 = Inr ((), w3)"
  proof (rule assign_op_total)
    show "''OutletCt'' \<in> set (columns (heap w2 (nxt w)))"
      unfolding h2 by (rule in1, rule numeric_colsD[OF num0]) simp
    show "''OutletCt_loc2'' \<in> set (columns (heap w2 (nxt w)))"
      unfolding h2 by (rule in1, rule numeric_colsD[OF num0]) simp
    fix ir assume "ir \<in> set (rows (heap w2 (nxt w)))"
    then have "ir \<in> set (rows d1)" unfolding h2 .
    from list_all2_partner[OF l1 this] obtain x where
      x: "x \<in> set (rows ?d0)" and cs: "col_set ''Total_TURNOV'' ?P1 x ir" by blast
    from x have "\<not> is_str (cellat (snd x) ''OutletCt'')" "\<not> is_str (cellat (snd x) ''OutletCt_loc2'')"
      by (simp_all add: nn)
    moreover from cs have "cellat (snd ir) ''OutletCt'' = cellat (snd x) ''OutletCt''"
      "cellat (snd ir) ''OutletCt_loc2'' = cellat (snd x) ''OutletCt_loc2''"
      by (auto simp: col_set_def cellat_def)
    ultimately show "\<exists>v. cell_add (cellat (snd ir) ''OutletCt'') (cellat (snd ir) ''OutletCt_loc2'') = Inr v"
      using cell_add_numeric by metis
  qed
  then obtain w3 where s2: "assign_op (nxt w) ''Total_OutletCt'' cell_add ''OutletCt'' ''OutletCt_loc2'' w2 = Inr ((), w3)" ..
  from assign_op_Inr[OF s2] h2 obtain d2 where
    w3: "w3 = w2\<lparr>heap := (heap w2)(nxt w := d2)\<rparr>" and
    c2: "columns d2 = (if ''Total_OutletCt'' \<in> set (columns d1) then columns d1 else columns d1 @ [''Total_OutletCt''])" and
    l2: "list_all2 (col_set ''Total_OutletCt'' ?P2) (rows d1) (rows d2)"
    by auto
  have h3: "heap w3 (nxt w) = d2" using w3 by simp
  have "\<exists>w4. assign_op (nxt w) ''avg_TURNOV'' cell_div ''Total_TURNOV'' ''Total_OutletCt'' w3 = Inr ((), w4)"
  proof (rule assign_op_total)
    show "''Total_TURNOV'' \<in> set (columns (heap w3 (nxt w)))"
      unfolding h3 using c2 tt1 by auto
    show "''Total_OutletCt'' \<in> set (columns (heap w3 (nxt w)))"
      unfolding h3 using c2 by auto
    fix ir assume "ir \<in> set (rows (heap w3 (nxt w)))"
    then have ir: "ir \<in> set (rows d2)" unfolding h3 .
    from list_all2_partner[OF l2 ir] obtain y where
      y: "y \<in> set (rows d1)" and cy: "col_set ''Total_OutletCt'' ?P2 y ir" by blast
    from list_all2_partner[OF l1 y] obtain x where
      x: "x \<in> set (rows ?d0)" and cx: "col_set ''Total_TURNOV'' ?P1 x y" by blast
    from cx obtain t where t: "?P1 (snd x) t" "snd y = (snd x)(''Total_TURNOV'' \<mapsto> t)"
      by (auto simp: col_set_def)
    from cy obtain ou where ou: "?P2 (snd y) ou" "snd ir = (snd y)(''Total_OutletCt'' \<mapsto> ou)"
      by (auto simp: col_set_def)
    from x have nx: "\<not> is_str (cellat (snd x) ''Sum_Turnov'')" "\<not> is_str (cellat (snd x) ''OutletCt'')"
      by (simp_all add: nn)
    from t(1) nx(1) have "\<not> is_str t" by (rule cell_add_Inr_numeric)
    moreover from ou(1) t(2) have "cell_add (cellat (snd x) ''OutletCt'') (cellat (snd x) ''OutletCt_loc2'') = Inr ou"
      by (simp add: cellat_def)
    then have "\<not> is_str ou" using nx(2) by (rule cell_add_Inr_numeric)
    moreover have "cellat (snd ir) ''Total_TURNOV'' = t" "cellat (snd ir) ''Total_OutletCt'' = ou"
      using t(2) ou(2) by (simp_all add: cellat_def)
    ultimately show "\<exists>v. cell_div (cellat (snd ir) ''Total_TURNOV'') (cellat (snd ir) ''Total_OutletCt'') = Inr v"
      using cell_div_numeric by metis
  qed
  then obtain w4 where s3: "assign_op (nxt w) ''avg_TURNOV'' cell_div ''Total_TURNOV'' ''Total_OutletCt'' w3 = Inr ((), w4)" ..
  from s1 s2 s3 show ?thesis
    unfolding postproc_unfold by (simp add: bind_def return_def)
qed

lemma merged3_numeric:
  "numeric_cols (heap merged_world 0) [''Sum_Turnov'', ''Sum_Turnov_loc2'', ''OutletCt'', ''OutletCt_loc2'']"
  by code_simp

lemma cell_div_zero: "cell_div t (Num 0) = Inr v \<Longrightarrow> v \<in> {PosInf, NegInf, Null}"
  by (cases t) (auto simp: sign_inf_def split: if_splits)

text \<open>The example table postprocessed: the third row divides 10 by 0.\<close>

lemma postproc_example:
  "table_after (postproc_turnover_df 0) merged_world =
     Inr ([''FacilityID'', ''Merge_Num'', ''Sum_Turnov'', ''OutletCt'', ''Sum_Turnov_loc2'',
           ''OutletCt_loc2'', ''Total_TURNOV'', ''Total_OutletCt'', ''avg_TURNOV''],
          [(0, [Num 1, Num 1, Num 100, Num 300, Num 50, Num 100, Num 150, Num 400, Num (3 / 8)]),
           (1, [Num 2, Num 2, Num 50, Num 100, Num 0, Num 0, Num 50, Num 100, Num (1 / 2)]),
           (2, [Num 3, Num 1, Num 10, Num 0, Num 0, Num 0, Num 10, Num 0, PosInf])])"
  by code_simp

lemma fill_zero_cases:
  "map_option (fill_cell (Num 0)) v = (case v of Some Null \<Rightarrow> Some (Num 0) | x \<Rightarrow> x)"
  by (cases v) (auto simp: fill_cell_def split: cell.splits)

lemma cell_add_Num: "cell_add (Num a) (Num b) = Inr t \<Longrightarrow> t = Num (a + b)"
  by simp

lemma post_row_explicit:
  assumes "post_row (i, map_option (fill_cell (Num 0)) \<circ> x) ir'"
  shows "fst ir' = i
    \<and> (\<forall>c. c \<notin> {''Total_TURNOV'', ''Total_OutletCt'', ''avg_TURNOV''}
           \<longrightarrow> snd ir' c = (case x c of Some Null \<Rightarrow> Some (Num 0) | v \<Rightarrow> v))
    \<and> (\<forall>a b. cellat (snd ir') ''Sum_Turnov'' = Num a \<longrightarrow> cellat (snd ir') ''Sum_Turnov_loc2'' = Num b
           \<longrightarrow> cellat (snd ir') ''Total_TURNOV'' = Num (a + b))
    \<and> (\<forall>a b. cellat (snd ir') ''OutletCt'' = Num a \<longrightarrow> cellat (snd ir') ''OutletCt_loc2'' = Num b
           \<longrightarrow> cellat (snd ir') ''Total_OutletCt'' = Num (a + b))"
proof -
  let ?f = "map_option (fill_cell (Num 0)) \<circ> x"
  from assms obtain t ou av where
    i: "fst ir' = i" and
    t: "cell_add (cellat ?f ''Sum_Turnov'') (cellat ?f ''Sum_Turnov_loc2'') = Inr t" and
    ou: "cell_add (cellat ?f ''OutletCt'') (cellat ?f ''OutletCt_loc2'') = Inr ou" and
    r: "snd ir' = ?f(''Total_TURNOV'' \<mapsto> t, ''Total_OutletCt'' \<mapsto> ou, ''avg_TURNOV'' \<mapsto> av)"
    by (auto simp: post_row_def)
  have own: "\<And>c. c \<notin> {''Total_TURNOV'', ''Total_OutletCt'', ''avg_TURNOV''} \<Longrightarrow> snd ir' c = ?f c"
    unfolding r by simp
  have c1: "\<forall>c. c \<notin> {''Total_TURNOV'', ''Total_OutletCt'', ''avg_TURNOV''}
           \<longrightarrow> snd ir' c = (case x c of Some Null \<Rightarrow> Some (Num 0) | v \<Rightarrow> v)"
    using own by (simp add: fill_zero_cases)
  have same: "cellat (snd ir') ''Sum_Turnov'' = cellat ?f ''Sum_Turnov''"
    "cellat (snd ir') ''Sum_Turnov_loc2'' = cellat ?f ''Sum_Turnov_loc2''"
    "cellat (snd ir') ''OutletCt'' = cellat ?f ''OutletCt''"
    "cellat (snd ir') ''OutletCt_loc2'' = cellat ?f ''OutletCt_loc2''"
    "cellat (snd ir') ''Total_TURNOV'' = t" "cellat (snd ir') ''Total_OutletCt'' = ou"
    unfolding r by (simp_all add: cellat_def)
  have c2: "\<forall>a b. cellat (snd ir') ''Sum_Turnov'' = Num a \<longrightarrow> cellat (snd ir') ''Sum_Turnov_loc2'' = Num b
           \<longrightarrow> cellat (snd ir') ''Total_TURNOV'' = Num (a + b)"
    unfolding same using t by (auto dest: cell_add_Num)
  have c3: "\<forall>a b. cellat (snd ir') ''OutletCt'' = Num a \<longrightarrow> cellat (snd ir') ''OutletCt_loc2'' = Num b
           \<longrightarrow> cellat (snd ir') ''Total_OutletCt'' = Num (a + b)"
    unfolding same using ou by (auto dest: cell_add_Num)
  from i c1 c2 c3 show ?thesis by blast
qed

text \<open>
  C3. On a merged table whose four turnover and outlet columns are numeric,
  \<open>postproc_turnover_df\<close> returns a table with the same rows in the same order. Every
  cell outside the three computed columns is the input cell, except that a missing
  value has become 0; and wherever the two turnover cells of a result row are the
  numbers \<open>a\<close> and \<open>b\<close>, its \<open>Total_TURNOV\<close> is the number \<open>a + b\<close>, likewise
  \<open>Total_OutletCt\<close> for the two outlet cells.
\<close>

theorem postproc_totals:
  assumes "numeric_cols (heap w df) [''Sum_Turnov'', ''Sum_Turnov_loc2'', ''OutletCt'', ''OutletCt_loc2'']"
  shows "\<exists>df_copy w'. postproc_turnover_df df w = Inr (df_copy, w') \<and>
     list_all2 (\<lambda>ir ir'. fst ir' = fst ir
        \<and> (\<forall>c. c \<notin> {''Total_TURNOV'', ''Total_OutletCt'', ''avg_TURNOV''}
               \<longrightarrow> snd ir' c = (case snd ir c of Some Null \<Rightarrow> Some (Num 0) | v \<Rightarrow> v))
        \<and> (\<forall>a b. cellat (snd ir') ''Sum_Turnov'' = Num a \<longrightarrow> cellat (snd ir') ''Sum_Turnov_loc2'' = Num b
               \<longrightarrow> cellat (snd ir') ''Total_TURNOV'' = Num (a + b))
        \<and> (\<forall>a b. cellat (snd ir') ''OutletCt'' = Num a \<longrightarrow> cellat (snd ir') ''OutletCt_loc2'' = Num b
               \<longrightarrow> cellat (snd ir') ''Total_OutletCt'' = Num (a + b)))
       (rows (heap w df)) (rows (heap w' df_copy))"
proof -
  from postproc_total[OF assms] obtain df_copy w' where
    run: "postproc_turnover_df df w = Inr (df_copy, w')" by blast
  from postproc_Inr[OF run] have
    "list_all2 post_row (rows (fillna (Num 0) (heap w df))) (rows (heap w' df_copy))" by blast
  then have "list_all2 (\<lambda>ir. post_row (fst ir, map_option (fill_cell (Num 0)) \<circ> snd ir))
      (rows (heap w df)) (rows (heap w' df_copy))"
    by (simp add: fillna_def list_all2_map1)
  then have "list_all2 (\<lambda>ir ir'. fst ir' = fst ir
        \<and> (\<forall>c. c \<notin> {''Total_TURNOV'', ''Total_OutletCt'', ''avg_TURNOV''}
               \<longrightarrow> snd ir' c = (case snd ir c of Some Null \<Rightarrow> Some (Num 0) | v \<Rightarrow> v))
        \<and> (\<forall>a b. cellat (snd ir') ''Sum_Turnov'' = Num a \<longrightarrow> cellat (snd ir') ''Sum_Turnov_loc2'' = Num b
               \<longrightarrow> cellat (snd ir') ''Total_TURNOV'' = Num (a + b))
        \<and> (\<forall>a b. cellat (snd ir') ''OutletCt'' = Num a \<longrightarrow> cellat (snd ir') ''OutletCt_loc2'' = Num b
               \<longrightarrow> cellat (snd ir') ''Total_OutletCt'' = Num (a + b)))
       (rows (heap w df)) (rows (heap w' df_copy))"
    by (rule list_all2_mono) (rule post_row_explicit)
  with run show ?thesis by blast
qed

theorem postproc_totals_witness:
  "numeric_cols (heap merged_world 0) [''Sum_Turnov'', ''Sum_Turnov_loc2'', ''OutletCt'', ''OutletCt_loc2'']
   \<and> (\<exists>df_copy w'. postproc_turnover_df 0 merged_world = Inr (df_copy, w') \<and>
     list_all2 (\<lambda>ir ir'. fst ir' = fst ir
        \<and> (\<forall>c. c \<notin> {''Total_TURNOV'', ''Total_OutletCt'', ''avg_TURNOV''}
               \<longrightarrow> snd ir' c = (case snd ir c of Some Null \<Rightarrow> Some (Num 0) | v \<Rightarrow> v))
        \<and> (\<forall>a b. cellat (snd ir') ''Sum_Turnov'' = Num a \<longrightarrow> cellat (snd ir') ''Sum_Turnov_loc2'' = Num b
               \<longrightarrow> cellat (snd ir') ''Total_TURNOV'' = Num (a + b))
        \<and> (\<forall>a b. cellat (snd ir') ''OutletCt'' = Num a \<longrightarrow> cellat (snd ir') ''OutletCt_loc2'' = Num b
               \<longrightarrow> cellat (snd ir') ''Total_OutletCt'' = Num (a + b)))
       (rows (heap merged_world 0)) (rows (heap w' df_copy)))"
  using merged3_numeric postproc_totals[OF merged3_numeric] by blast

lemma cell_div_by_zero:
  "cell_div t (Num 0) = Inr av \<Longrightarrow>
     av \<in> {PosInf, NegInf, Null}
     \<and> (\<forall>q. t = Num q \<longrightarrow> av = (if 0 < q then PosInf else if q < 0 then NegInf else Null))"
  by (cases t) (auto simp: sign_inf_def split: if_splits)

lemma filled_number:
  "x c = Some (Num a) \<or> (x c = Some Null \<and> a = 0)
   \<Longrightarrow> cellat (map_option (fill_cell (Num 0)) \<circ> x) c = Num a"
  by (auto simp: cellat_def fill_cell_def)

lemma post_row_zero_outlets:
  assumes p: "post_row (i, map_option (fill_cell (Num 0)) \<circ> x) ir'"
    and a: "x ''OutletCt'' = Some (Num a) \<or> (x ''OutletCt'' = Some Null \<and> a = 0)"
    and b: "x ''OutletCt_loc2'' = Some (Num b) \<or> (x ''OutletCt_loc2'' = Some Null \<and> b = 0)"
    and z: "a + b = 0"
  shows "cellat (snd ir') ''Total_OutletCt'' = Num 0
     \<and> cellat (snd ir') ''avg_TURNOV'' \<in> {PosInf, NegInf, Null}
     \<and> (\<forall>q. cellat (snd ir') ''Total_TURNOV'' = Num q \<longrightarrow>
           cellat (snd ir') ''avg_TURNOV'' = (if 0 < q then PosInf else if q < 0 then NegInf else Null))"
proof -
  let ?f = "map_option (fill_cell (Num 0)) \<circ> x"
  from p obtain t ou av where
    ou: "cell_add (cellat ?f ''OutletCt'') (cellat ?f ''OutletCt_loc2'') = Inr ou" and
    av: "cell_div t ou = Inr av" and
    r: "snd ir' = ?f(''Total_TURNOV'' \<mapsto> t, ''Total_OutletCt'' \<mapsto> ou, ''avg_TURNOV'' \<mapsto> av)"
    by (auto simp: post_row_def)
  have fa: "cellat ?f ''OutletCt'' = Num a"
    using a by (rule filled_number[of x "''OutletCt''" a])
  have fb: "cellat ?f ''OutletCt_loc2'' = Num b"
    using b by (rule filled_number[of x "''OutletCt_loc2''" b])
  from ou have "ou = Num (a + b)"
    unfolding fa fb by (rule cell_add_Num)
  with z have ou0: "ou = Num 0" by simp
  have cells: "cellat (snd ir') ''Total_OutletCt'' = ou" "cellat (snd ir') ''avg_TURNOV'' = av"
    "cellat (snd ir') ''Total_TURNOV'' = t"
    unfolding r by (simp_all add: cellat_def)
  from av ou0 have "cell_div t (Num 0) = Inr av" by simp
  from cell_div_by_zero[OF this] ou0 show ?thesis unfolding cells by blast
qed

text \<open>
  C8. On the same tables \<open>postproc_turnover_df\<close> returns normally, with one result row
  per input row. For every input row whose outlet counts (a missing one counting as 0)
  add up to 0, the result row at its position has \<open>Total_OutletCt = 0\<close> and a sentinel
  in \<open>avg_TURNOV\<close>: plus or minus infinity by the sign of a nonzero \<open>Total_TURNOV\<close>, NaN
  for \<open>0 / 0\<close>. Nothing is raised and no row is lost.
\<close>

theorem avg_turnov_zero_outlets:
  assumes "numeric_cols (heap w df) [''Sum_Turnov'', ''Sum_Turnov_loc2'', ''OutletCt'', ''OutletCt_loc2'']"
  shows "\<exists>df_copy w'. postproc_turnover_df df w = Inr (df_copy, w') \<and>
     list_all2 (\<lambda>ir ir'. fst ir' = fst ir \<and>
        (\<forall>a b. (snd ir ''OutletCt'' = Some (Num a) \<or> (snd ir ''OutletCt'' = Some Null \<and> a = 0))
           \<longrightarrow> (snd ir ''OutletCt_loc2'' = Some (Num b) \<or> (snd ir ''OutletCt_loc2'' = Some Null \<and> b = 0))
           \<longrightarrow> a + b = 0
           \<longrightarrow> cellat (snd ir') ''Total_OutletCt'' = Num 0
               \<and> cellat (snd ir') ''avg_TURNOV'' \<in> {PosInf, NegInf, Null}
               \<and> (\<forall>q. cellat (snd ir') ''Total_TURNOV'' = Num q \<longrightarrow>
                     cellat (snd ir') ''avg_TURNOV''
                       = (if 0 < q then PosInf else if q < 0 then NegInf else Null))))
       (rows (heap w df)) (rows (heap w' df_copy))"
proof -
  from postproc_total[OF assms] obtain df_copy w' where
    run: "postproc_turnover_df df w = Inr (df_copy, w')" by blast
  from postproc_Inr[OF run] have
    "list_all2 post_row (rows (fillna (Num 0) (heap w df))) (rows (heap w' df_copy))" by blast
  then have l: "list_all2 (\<lambda>ir. post_row (fst ir, map_option (fill_cell (Num 0)) \<circ> snd ir))
      (rows (heap w df)) (rows (heap w' df_copy))"
    by (simp add: fillna_def list_all2_map1)
  have "list_all2 (\<lambda>ir ir'. fst ir' = fst ir \<and>
        (\<forall>a b. (snd ir ''OutletCt'' = Some (Num a) \<or> (snd ir ''OutletCt'' = Some Null \<and> a = 0))
           \<longrightarrow> (snd ir ''OutletCt_loc2'' = Some (Num b) \<or> (snd ir ''OutletCt_loc2'' = Some Null \<and> b = 0))
           \<longrightarrow> a + b = 0
           \<longrightarrow> cellat (snd ir') ''Total_OutletCt'' = Num 0
               \<and> cellat (snd ir') ''avg_TURNOV'' \<in> {PosInf, NegInf, Null}
               \<and> (\<forall>q. cellat (snd ir') ''Total_TURNOV'' = Num q \<longrightarrow>
                     cellat (snd ir') ''avg_TURNOV''
                       = (if 0 < q then PosInf else if q < 0 then NegInf else Null))))
       (rows (heap w df)) (rows (heap w' df_copy))"
    using l
  proof (rule list_all2_mono)
    fix ir ir' assume p: "post_row (fst ir, map_option (fill_cell (Num 0)) \<circ> snd ir) ir'"
    then have "fst ir' = fst ir" by (simp add: post_row_def)
    with post_row_zero_outlets[OF p]
    show "fst ir' = fst ir \<and>
        (\<forall>a b. (snd ir ''OutletCt'' = Some (Num a) \<or> (snd ir ''OutletCt'' = Some Null \<and> a = 0))
           \<longrightarrow> (snd ir ''OutletCt_loc2'' = Some (Num b) \<or> (snd ir ''OutletCt_loc2'' = Some Null \<and> b = 0))
           \<longrightarrow> a + b = 0
           \<longrightarrow> cellat (snd ir') ''Total_OutletCt'' = Num 0
               \<and> cellat (snd ir') ''avg_TURNOV'' \<in> {PosInf, NegInf, Null}
               \<and> (\<forall>q. cellat (snd ir') ''Total_TURNOV'' = Num q \<longrightarrow>
                     cellat (snd ir') ''avg_TURNOV''
                       = (if 0 < q then PosInf else if q < 0 then NegInf else Null)))"
      by blast
  qed
  with run show ?thesis by blast
qed

theorem avg_turnov_zero_outlets_witness:
  "numeric_cols (heap merged_world 0) [''Sum_Turnov'', ''Sum_Turnov_loc2'', ''OutletCt'', ''OutletCt_loc2'']
   \<and> (\<exists>df_copy w'. postproc_turnover_df 0 merged_world = Inr (df_copy, w') \<and>
     list_all2 (\<lambda>ir ir'. fst ir' = fst ir \<and>
        (\<forall>a b. (snd ir ''OutletCt'' = Some (Num a) \<or> (snd ir ''OutletCt'' = Some Null \<and> a = 0))
           \<longrightarrow> (snd ir ''OutletCt_loc2'' = Some (Num b) \<or> (snd ir ''OutletCt_loc2'' = Some Null \<and> b = 0))
           \<longrightarrow> a + b = 0
           \<longrightarrow> cellat (snd ir') ''Total_OutletCt'' = Num 0
               \<and> cellat (snd ir') ''avg_TURNOV'' \<in> {PosInf, NegInf, Null}
               \<and> (\<forall>q. cellat (snd ir') ''Total_TURNOV'' = Num q \<longrightarrow>
                     cellat (snd ir') ''avg_TURNOV''
                       = (if 0 < q then PosInf else if q < 0 then NegInf else Null))))
       (rows (heap merged_world 0)) (rows (heap w' df_copy)))"
  using merged3_numeric avg_turnov_zero_outlets[OF merged3_numeric] by blast

subsection \<open>The size and role filter\<close>

lemma map_e_pure: "(\<And>x. x \<in> set xs \<Longrightarrow> f x = Inr (g x)) \<Longrightarrow> map_e f xs = Inr (map g xs)"
  by (induction xs) auto

lemma filter_by_marks: "map fst (filter snd (zip xs (map h xs))) = filter h xs"
  by (induction xs) auto

lemma cell_ne_iff: "cell_ne c k \<longleftrightarrow> c \<noteq> Num k"
  by (cases c) auto

lemma cell_ge_numeric:
  "\<not> is_str c \<Longrightarrow> cell_ge c k = Inr (case c of Num a \<Rightarrow> k \<le> a | PosInf \<Rightarrow> True | _ \<Rightarrow> False)"
  by (cases c) (auto simp: is_str_def)

text \<open>
  C4. On a postprocessed table (the two columns exist, \<open>Total_OutletCt\<close> is numeric) the
  filter of \<open>main\<close> returns the same columns and exactly the rows with
  \<open>Total_OutletCt >= 250\<close> and \<open>Merge_Num != 2\<close>, in their input order and with their
  index labels.
\<close>

theorem size_role_filter_keeps_exactly:
  assumes "''Total_OutletCt'' \<in> set (columns df)" and "''Merge_Num'' \<in> set (columns df)"
    and "list_all (\<lambda>ir. \<not> is_str (cellat (snd ir) ''Total_OutletCt'')) (rows df)"
  shows "\<exists>df'. query_size_role df = Inr df' \<and> columns df' = columns df \<and>
     rows df' = filter (\<lambda>ir. (case cellat (snd ir) ''Total_OutletCt'' of
                                 Num a \<Rightarrow> 250 \<le> a | PosInf \<Rightarrow> True | _ \<Rightarrow> False)
                              \<and> cellat (snd ir) ''Merge_Num'' \<noteq> Num 2) (rows df)"
proof -
  let ?big = "\<lambda>ir. case cellat (snd ir) ''Total_OutletCt'' of Num a \<Rightarrow> 250 \<le> a | PosInf \<Rightarrow> True | _ \<Rightarrow> False"
  have "map_e (\<lambda>ir. cell_ge (cellat (snd ir) ''Total_OutletCt'') 250) (rows df) = Inr (map ?big (rows df))"
    by (rule map_e_pure) (use assms(3) in \<open>simp add: list_all_iff cell_ge_numeric\<close>)
  moreover have "map (\<lambda>(b, ir). b \<and> cell_ne (cellat (snd ir) ''Merge_Num'') 2) (zip (map ?big (rows df)) (rows df))
      = map (\<lambda>ir. ?big ir \<and> cellat (snd ir) ''Merge_Num'' \<noteq> Num 2) (rows df)"
    by (simp add: zip_map1 zip_same_conv_map cell_ne_iff)
  ultimately show ?thesis
    using assms(1,2) by (simp add: query_size_role_def select_rows_def filter_by_marks)
qed

theorem size_role_filter_keeps_exactly_witness:
  "''Total_OutletCt'' \<in> set (columns postprocessed3) \<and> ''Merge_Num'' \<in> set (columns postprocessed3)
   \<and> list_all (\<lambda>ir. \<not> is_str (cellat (snd ir) ''Total_OutletCt'')) (rows postprocessed3)
   \<and> (\<exists>df'. query_size_role postprocessed3 = Inr df' \<and> columns df' = columns postprocessed3 \<and>
        map fst (rows df') = [0, 3])"
proof -
  have h1: "''Total_OutletCt'' \<in> set (columns postprocessed3)" by code_simp
  have h2: "''Merge_Num'' \<in> set (columns postprocessed3)" by code_simp
  have h3: "list_all (\<lambda>ir. \<not> is_str (cellat (snd ir) ''Total_OutletCt'')) (rows postprocessed3)" by code_simp
  have e: "map fst (filter (\<lambda>ir. (case cellat (snd ir) ''Total_OutletCt'' of
                                 Num a \<Rightarrow> 250 \<le> a | PosInf \<Rightarrow> True | _ \<Rightarrow> False)
                              \<and> cellat (snd ir) ''Merge_Num'' \<noteq> Num 2) (rows postprocessed3)) = [0, 3]"
    by code_simp
  from size_role_filter_keeps_exactly[OF h1 h2 h3] e h1 h2 h3 show ?thesis by auto
qed

subsection \<open>Duplicate detection\<close>

lemma count_list_card: "count_list vs x = card {i. i < length vs \<and> vs ! i = x}"
proof -
  have "{i. i < length vs \<and> x = vs ! i} = {i. i < length vs \<and> vs ! i = x}" by auto
  then show ?thesis by (simp add: count_list_eq_length_filter length_filter_conv_card)
qed

lemma count_ge_two:
  assumes "k < length vs"
  shows "(2 \<le> count_list vs (vs ! k)) = (\<exists>j<length vs. j \<noteq> k \<and> vs ! j = vs ! k)"
proof
  let ?S = "{i. i < length vs \<and> vs ! i = vs ! k}"
  have fin: "finite ?S" by simp
  have kS: "k \<in> ?S" using assms by simp
  {
    assume "2 \<le> count_list vs (vs ! k)"
    then have c: "2 \<le> card ?S" by (simp add: count_list_card)
    show "\<exists>j<length vs. j \<noteq> k \<and> vs ! j = vs ! k"
    proof (rule ccontr)
      assume "\<not> ?thesis"
      with kS have "?S = {k}" by auto
      with c show False by simp
    qed
  }
  {
    assume "\<exists>j<length vs. j \<noteq> k \<and> vs ! j = vs ! k"
    then obtain j where j: "j < length vs" "j \<noteq> k" "vs ! j = vs ! k" by blast
    then have "{k, j} \<subseteq> ?S" using kS by simp
    then have "card {k, j} \<le> card ?S" using fin by (rule card_mono[rotated])
    with j(2) show "2 \<le> count_list vs (vs ! k)" by (simp add: count_list_card)
  }
qed

lemma duplicated_rows:
  assumes "col \<in> set (columns d)"
  shows "\<exists>marks. duplicated d col = Inr marks \<and>
     rows (select_rows d marks) =
       nths (rows d) {k. k < length (rows d) \<and>
          (\<exists>j<length (rows d). j \<noteq> k \<and> cellat (snd (rows d ! j)) col = cellat (snd (rows d ! k)) col)}"
proof -
  let ?vs = "map (\<lambda>ir. cellat (snd ir) col) (rows d)"
  let ?h = "\<lambda>ir. 2 \<le> count_list ?vs (cellat (snd ir) col)"
  have d: "duplicated d col = Inr (map ?h (rows d))"
    using assms by (simp add: duplicated_def getitem_def comp_def)
  have "rows (select_rows d (map ?h (rows d))) = filter ?h (rows d)"
    by (simp add: select_rows_def filter_by_marks)
  also have "\<dots> = nths (rows d) {k. k < length (rows d) \<and> ?h (rows d ! k)}"
    by (rule filter_eq_nths)
  also have "{k. k < length (rows d) \<and> ?h (rows d ! k)} =
      {k. k < length (rows d) \<and>
          (\<exists>j<length (rows d). j \<noteq> k \<and> cellat (snd (rows d ! j)) col = cellat (snd (rows d ! k)) col)}"
  proof (rule Collect_cong, rule conj_cong[OF refl])
    fix k assume k: "k < length (rows d)"
    then have "k < length ?vs" by simp
    from count_ge_two[OF this] k
    show "?h (rows d ! k) = (\<exists>j<length (rows d). j \<noteq> k \<and> cellat (snd (rows d ! j)) col = cellat (snd (rows d ! k)) col)"
      by (simp cong: conj_cong)
  qed
  finally show ?thesis using d by blast
qed

lemma write_df_to_excel_Inr:
  assumes "overwrite \<or> files w outfile = None" "outfile \<notin> dirs w" "parent outfile \<in> dirs w"
  shows "write_df_to_excel r outfile overwrite w =
     Inr ((), w\<lparr>files := (files w)(outfile \<mapsto> Excel (to_sheet True inf_rep (heap w r)))\<rparr>)"
  using assms
  by (auto simp: write_df_to_excel_def bind_def path_exists_def raise_def to_excel_def load_def write_file_def)

text \<open>
  C5. When the column exists and the output path can be written, \<open>save_df_duplicates\<close>
  succeeds and the sheet it writes holds, in table order, exactly the rows at the positions
  \<open>k\<close> for which a row at another position \<open>j\<close> has the same value in the column; a row
  whose value occurs once is left out. A missing value counts as a value.
\<close>

theorem save_df_duplicates_marks_all:
  assumes "col \<in> set (columns (heap w df))"
    and "overwrite \<or> files w outfile = None" and "outfile \<notin> dirs w" and "parent outfile \<in> dirs w"
  shows "\<exists>w'. save_df_duplicates df col outfile overwrite w = Inr ((), w') \<and>
     files w' outfile = Some (Excel (to_sheet True inf_rep
       ((heap w df)\<lparr>rows := nths (rows (heap w df))
          {k. k < length (rows (heap w df)) \<and>
              (\<exists>j<length (rows (heap w df)). j \<noteq> k \<and>
                 cellat (snd (rows (heap w df) ! j)) col = cellat (snd (rows (heap w df) ! k)) col)}\<rparr>)))"
proof -
  let ?d = "heap w df"
  from duplicated_rows[OF assms(1)] obtain marks where
    m: "duplicated ?d col = Inr marks" and
    r: "rows (select_rows ?d marks) = nths (rows ?d) {k. k < length (rows ?d) \<and>
          (\<exists>j<length (rows ?d). j \<noteq> k \<and> cellat (snd (rows ?d ! j)) col = cellat (snd (rows ?d ! k)) col)}"
    by blast
  let ?w1 = "w\<lparr>heap := (heap w)(nxt w := select_rows ?d marks), nxt := Suc (nxt w)\<rparr>"
  have sel: "select_rows ?d marks = ?d\<lparr>rows := rows (select_rows ?d marks)\<rparr>"
    by (simp add: select_rows_def)
  have "save_df_duplicates df col outfile overwrite w = write_df_to_excel (nxt w) outfile overwrite ?w1"
    using m by (simp add: save_df_duplicates_def bind_def load_def lift_def alloc_def)
  also have "\<dots> = Inr ((), ?w1\<lparr>files := (files ?w1)(outfile \<mapsto> Excel (to_sheet True inf_rep (heap ?w1 (nxt w))))\<rparr>)"
    by (rule write_df_to_excel_Inr) (use assms in simp_all)
  finally show ?thesis using sel r by (simp del: dataframe.update_convs)
qed

lemma merged_world_dup_ok:
  "''Merge_Num'' \<in> set (columns (heap merged_world 0))
   \<and> (False \<or> files merged_world ''/data/2022_duplicate_1.xlsx'' = None)
   \<and> ''/data/2022_duplicate_1.xlsx'' \<notin> dirs merged_world
   \<and> parent ''/data/2022_duplicate_1.xlsx'' \<in> dirs merged_world"
  by code_simp

theorem save_df_duplicates_marks_all_witness:
  "''Merge_Num'' \<in> set (columns (heap merged_world 0))
   \<and> (False \<or> files merged_world ''/data/2022_duplicate_1.xlsx'' = None)
   \<and> ''/data/2022_duplicate_1.xlsx'' \<notin> dirs merged_world
   \<and> parent ''/data/2022_duplicate_1.xlsx'' \<in> dirs merged_world
   \<and> (\<exists>w'. save_df_duplicates 0 ''Merge_Num'' ''/data/2022_duplicate_1.xlsx'' False merged_world = Inr ((), w') \<and>
     files w' ''/data/2022_duplicate_1.xlsx'' = Some (Excel (to_sheet True inf_rep
       ((heap merged_world 0)\<lparr>rows := nths (rows (heap merged_world 0))
          {k. k < length (rows (heap merged_world 0)) \<and>
              (\<exists>j<length (rows (heap merged_world 0)). j \<noteq> k \<and>
                 cellat (snd (rows (heap merged_world 0) ! j)) ''Merge_Num''
                 = cellat (snd (rows (heap merged_world 0) ! k)) ''Merge_Num'')}\<rparr>))))"
proof -
  note h = merged_world_dup_ok
  from h have h1: "''Merge_Num'' \<in> set (columns (heap merged_world 0))"
    and h2: "False \<or> files merged_world ''/data/2022_duplicate_1.xlsx'' = None"
    and h3: "''/data/2022_duplicate_1.xlsx'' \<notin> dirs merged_world"
    and h4: "parent ''/data/2022_duplicate_1.xlsx'' \<in> dirs merged_world"
    by simp_all
  from conjI[OF h save_df_duplicates_marks_all[OF h1 h2 h3 h4]] show ?thesis
    by (simp only: conj_assoc simp_thms)
qed

text \<open>The example: the two acceptors share \<open>Merge_Num = 1\<close>, the donor's 2 occurs once.\<close>

lemma save_df_duplicates_example:
  "file_after (save_df_duplicates 0 ''Merge_Num'' ''/data/2022_duplicate_1.xlsx'' False) merged_world
     ''/data/2022_duplicate_1.xlsx'' =
   Inr (Some (Excel
     \<lparr>header = [[], ''FacilityID'', ''Merge_Num'', ''Sum_Turnov'', ''OutletCt'', ''Sum_Turnov_loc2'', ''OutletCt_loc2''],
      body = [[Num 0, Num 1, Num 1, Num 100, Num 300, Num 50, Num 100],
              [Num 2, Num 3, Num 1, Num 10, Num 0, Null, Null]]\<rparr>))"
  by code_simp

lemma keeps_bind:
  assumes "keeps n m Q" and "\<And>x. Q x \<Longrightarrow> keeps n (f x) R"
  shows "keeps n (bind m f) R"
  unfolding keeps_def
proof (intro allI impI)
  fix w y w' assume n: "n \<le> nxt w" and run: "bind m f w = Inr (y, w')"
  from run obtain x w1 where m: "m w = Inr (x, w1)" and f: "f x w1 = Inr (y, w')"
    by (auto simp: bind_def split: sum.splits)
  from assms(1) n m have 1: "n \<le> nxt w1" "\<forall>q<n. heap w1 q = heap w q" "Q x"
    unfolding keeps_def by blast+
  from assms(2)[OF 1(3)] 1(1) f have 2: "n \<le> nxt w'" "\<forall>q<n. heap w' q = heap w1 q" "R y"
    unfolding keeps_def by blast+
  from 1 2 show "n \<le> nxt w' \<and> (\<forall>q<n. heap w' q = heap w q) \<and> R y" by simp
qed

lemma keeps_weaken: "keeps n m Q \<Longrightarrow> (\<And>x. Q x \<Longrightarrow> R x) \<Longrightarrow> keeps n m R"
  unfolding keeps_def by blast

lemma keeps_return: "keeps n (return x) (\<lambda>y. y = x)"
  by (simp add: keeps_def return_def)

lemma keeps_raise: "keeps n (raise e) Q"
  by (simp add: keeps_def raise_def)

lemma keeps_lift: "keeps n (lift v) (\<lambda>_. True)"
  by (auto simp: keeps_def lift_def split: sum.splits)

lemma keeps_load: "keeps n (load r) (\<lambda>_. True)"
  by (simp add: keeps_def load_def)

lemma keeps_store: "n \<le> r \<Longrightarrow> keeps n (store r d) (\<lambda>_. True)"
  by (auto simp: keeps_def store_def)

lemma keeps_alloc: "keeps n (alloc d) (\<lambda>r. n \<le> r)"
  by (auto simp: keeps_def alloc_def)

lemma keeps_path_exists: "keeps n (path_exists p) (\<lambda>_. True)"
  by (simp add: keeps_def path_exists_def)

lemma keeps_write_file: "keeps n (write_file p c) (\<lambda>_. True)"
  by (auto simp: keeps_def write_file_def split: if_splits)

lemma keeps_get_random_float: "keeps n (get_random_float k) (\<lambda>_. True)"
  by (auto simp: keeps_def get_random_float_def split: if_splits)

lemma keeps_copy_df: "keeps n (copy_df r) (\<lambda>r'. n \<le> r')"
  unfolding copy_df_def by (rule keeps_bind[OF keeps_load]) (rule keeps_alloc)

lemma keeps_fillna_inplace: "n \<le> r \<Longrightarrow> keeps n (fillna_inplace r v) (\<lambda>_. True)"
  unfolding fillna_inplace_def by (rule keeps_bind[OF keeps_load]) (rule keeps_store)

lemma keeps_lift_store: "n \<le> r \<Longrightarrow> keeps n (bind (lift v) (store r)) (\<lambda>_. True)"
  by (rule keeps_bind[OF keeps_lift]) (rule keeps_store)

lemma keeps_drop_inplace: "n \<le> r \<Longrightarrow> keeps n (drop_inplace r cs) (\<lambda>_. True)"
  unfolding drop_inplace_def by (rule keeps_bind[OF keeps_load]) (rule keeps_lift_store)

lemma keeps_sort_values_inplace: "n \<le> r \<Longrightarrow> keeps n (sort_values_inplace r c) (\<lambda>_. True)"
  unfolding sort_values_inplace_def by (rule keeps_bind[OF keeps_load]) (rule keeps_lift_store)

lemma keeps_assign_op: "n \<le> r \<Longrightarrow> keeps n (assign_op r c f a b) (\<lambda>_. True)"
  unfolding assign_op_def
  by (intro keeps_bind[OF keeps_load] keeps_bind[OF keeps_lift] keeps_lift_store)

lemma keeps_assign_div_scalar: "n \<le> r \<Longrightarrow> keeps n (assign_div_scalar r c a t) (\<lambda>_. True)"
  unfolding assign_div_scalar_def
  by (intro keeps_bind[OF keeps_load] keeps_bind[OF keeps_lift] keeps_lift_store)

lemma keeps_imul_rnd: "n \<le> r \<Longrightarrow> keeps n (imul_rnd r c x) (\<lambda>_. True)"
  unfolding imul_rnd_def
  by (intro keeps_bind[OF keeps_load] keeps_bind[OF keeps_lift] keeps_lift_store)

lemma keeps_to_excel: "keeps n (to_excel r p i) (\<lambda>_. True)"
  unfolding to_excel_def by (rule keeps_bind[OF keeps_load]) (rule keeps_write_file)

lemma keeps_write_df_to_excel: "keeps n (write_df_to_excel r p ov) (\<lambda>_. True)"
  unfolding write_df_to_excel_def
  by (rule keeps_bind[OF keeps_path_exists]) (auto intro: keeps_raise keeps_to_excel)

lemma keeps_postproc: "keeps n (postproc_turnover_df df) (\<lambda>r. n \<le> r)"
  unfolding postproc_turnover_df_def
  apply (rule keeps_bind[OF keeps_copy_df])
  apply (rule keeps_bind[OF keeps_fillna_inplace], assumption)
  apply (rule keeps_bind[OF keeps_assign_op], assumption)
  apply (rule keeps_bind[OF keeps_assign_op], assumption)
  apply (rule keeps_bind[OF keeps_assign_op], assumption)
  apply (rule keeps_weaken[OF keeps_return])
  apply simp
  done

lemma keeps_save_df_duplicates: "keeps n (save_df_duplicates df col p ov) (\<lambda>_. True)"
  unfolding save_df_duplicates_def
  by (intro keeps_bind[OF keeps_load] keeps_bind[OF keeps_lift] keeps_bind[OF keeps_alloc]
      keeps_write_df_to_excel)

lemma keeps_generate: "keeps n (generate_replacement_locations df region k) (\<lambda>r. n \<le> r)"
  unfolding generate_replacement_locations_def
  apply (rule keeps_bind[OF keeps_copy_df])
  apply (rule keeps_bind[OF keeps_load])
  apply (rule keeps_bind[OF keeps_lift])
  apply (rule keeps_bind[OF keeps_alloc])
  apply (rule keeps_bind[where Q = "\<lambda>_. True"])
   apply (intro keeps_bind[OF keeps_load] keeps_bind[OF keeps_lift] keeps_lift)
  apply (rule keeps_bind[OF keeps_assign_div_scalar], assumption)
  apply (rule keeps_bind[where Q = "\<lambda>_. True"])
   apply (intro keeps_bind[OF keeps_load] keeps_get_random_float)
  apply (rule keeps_bind[OF keeps_imul_rnd], assumption)
  apply (rule keeps_bind[OF keeps_sort_values_inplace], assumption)
  apply (rule keeps_bind[OF keeps_drop_inplace], assumption)
  apply (rule keeps_bind[OF keeps_load])
  apply (rule keeps_alloc)
  done

text \<open>
  C9. Let \<open>df\<close> be an allocated object. After a successful call of
  \<open>postproc_turnover_df\<close>, \<open>save_df_duplicates\<close> or \<open>generate_replacement_locations\<close> on
  it, the object behind \<open>df\<close> is the dataframe it was before the call (and so is every
  other object that existed): the in-place steps act on the copy or on new objects.
\<close>

theorem stages_leave_input_unchanged:
  assumes "df < nxt w"
  shows "(postproc_turnover_df df w = Inr (r1, w1) \<longrightarrow> heap w1 df = heap w df)
       \<and> (save_df_duplicates df col outfile overwrite w = Inr (u, w2) \<longrightarrow> heap w2 df = heap w df)
       \<and> (generate_replacement_locations df region n_locations w = Inr (r3, w3)
            \<longrightarrow> heap w3 df = heap w df)"
  using assms keeps_postproc[of "nxt w" df] keeps_save_df_duplicates[of "nxt w" df col outfile overwrite]
    keeps_generate[of "nxt w" df region n_locations]
  unfolding keeps_def by blast

lemma outcome_InrD: "outcome m w = Inr x \<Longrightarrow> \<exists>w'. m w = Inr (x, w')"
  by (auto simp: outcome_def split: sum.splits)

lemma stages_run_on_examples:
  "outcome (postproc_turnover_df 0) merged_world = Inr 1
   \<and> outcome (save_df_duplicates 0 ''Merge_Num'' ''/data/2022_duplicate_1.xlsx'' False) merged_world = Inr ()
   \<and> outcome (generate_replacement_locations 0 (Str ''North'') 1) sampling_world = Inr 3
   \<and> 0 < nxt merged_world \<and> 0 < nxt sampling_world"
  by code_simp

theorem stages_leave_input_unchanged_witness:
  "0 < nxt merged_world \<and> 0 < nxt sampling_world
   \<and> (\<exists>r1 w1. postproc_turnover_df 0 merged_world = Inr (r1, w1)
         \<and> heap w1 0 = heap merged_world 0)
   \<and> (\<exists>w2. save_df_duplicates 0 ''Merge_Num'' ''/data/2022_duplicate_1.xlsx'' False merged_world = Inr ((), w2)
         \<and> heap w2 0 = heap merged_world 0)
   \<and> (\<exists>r3 w3. generate_replacement_locations 0 (Str ''North'') 1 sampling_world = Inr (r3, w3)
         \<and> heap w3 0 = heap sampling_world 0)"
proof -
  note e = stages_run_on_examples
  from e have m: "0 < nxt merged_world" and s: "0 < nxt sampling_world" by blast+
  from e obtain w1 where 1: "postproc_turnover_df 0 merged_world = Inr (1, w1)"
    by (blast dest: outcome_InrD)
  from e obtain w2 where 2: "save_df_duplicates 0 ''Merge_Num'' ''/data/2022_duplicate_1.xlsx'' False merged_world = Inr ((), w2)"
    by (blast dest: outcome_InrD)
  from e obtain w3 where 3: "generate_replacement_locations 0 (Str ''North'') 1 sampling_world = Inr (3, w3)"
    by (blast dest: outcome_InrD)
  from stages_leave_input_unchanged[OF m] 1 have a: "heap w1 0 = heap merged_world 0" by blast
  from stages_leave_input_unchanged[OF m] 2 have b: "heap w2 0 = heap merged_world 0" by blast
  from stages_leave_input_unchanged[OF s] 3 have c: "heap w3 0 = heap sampling_world 0" by blast
  from m s 1 2 3 a b c show ?thesis by blast
qed

subsection \<open>Regional sampling\<close>

lemma mset_insert_desc: "mset (insert_desc x ys) = add_mset x (mset ys)"
  by (induction ys) auto

lemma mset_foldl_insert_desc:
  "mset (foldl (\<lambda>acc x. insert_desc x acc) acc xs) = mset acc + mset xs"
  by (induction xs arbitrary: acc) (auto simp: mset_insert_desc)

lemma mset_sort_desc: "mset (sort_desc xs) = mset xs"
  by (simp add: sort_desc_def mset_foldl_insert_desc)

lemma length_sort_desc: "length (sort_desc xs) = length xs"
  using mset_sort_desc[of xs] by (metis size_mset)

lemma map_snd_renumber [simp]: "map snd (renumber rs) = rs"
  by (simp add: renumber_def)

lemma length_renumber [simp]: "length (renumber rs) = length rs"
  by (simp add: renumber_def)

lemma fold_e_add_numeric:
  "\<not> is_str acc \<Longrightarrow> (\<And>x. x \<in> set xs \<Longrightarrow> \<not> is_str x)
   \<Longrightarrow> \<exists>t. fold_e cell_add xs acc = Inr t \<and> \<not> is_str t"
proof (induction xs arbitrary: acc)
  case Nil
  then show ?case by simp
next
  case (Cons x xs)
  from Cons.prems obtain v where v: "cell_add acc x = Inr v" "\<not> is_str v"
    using cell_add_numeric[of acc x] by auto
  from Cons.IH[OF v(2)] Cons.prems(2) obtain t where "fold_e cell_add xs v = Inr t" "\<not> is_str t"
    by auto
  with v show ?case by simp
qed

lemma series_sum_numeric:
  assumes "\<And>x. x \<in> set vs \<Longrightarrow> \<not> is_str x"
  shows "\<exists>t. series_sum vs = Inr t \<and> \<not> is_str t"
proof (cases "filter (\<lambda>v. v \<noteq> Null) vs")
  case Nil
  then show ?thesis by (simp add: series_sum_def is_str_def)
next
  case (Cons x xs)
  then have "set (x # xs) \<subseteq> set vs" by (metis filter_is_subset)
  with assms have "\<not> is_str x" "\<And>y. y \<in> set xs \<Longrightarrow> \<not> is_str y" by auto
  from fold_e_add_numeric[OF this] Cons show ?thesis by (simp add: series_sum_def)
qed

lemma cell_mul_numeric:
  "\<not> is_str a \<Longrightarrow> \<exists>v. cell_mul a (Num k) = Inr v \<and> \<not> is_str v"
  by (cases a) (simp_all add: is_str_def sign_inf_def)

lemma map_e_numeric:
  assumes "\<And>x. x \<in> set xs \<Longrightarrow> \<exists>v. f x = Inr v \<and> \<not> is_str v"
  shows "\<exists>vs. map_e f xs = Inr vs \<and> length vs = length xs \<and> (\<forall>v \<in> set vs. \<not> is_str v)"
  using assms
proof (induction xs)
  case Nil
  then show ?case by simp
next
  case (Cons x xs)
  from Cons.prems obtain v where v: "f x = Inr v" "\<not> is_str v" by force
  from Cons obtain vs where "map_e f xs = Inr vs" "length vs = length xs" "\<forall>v \<in> set vs. \<not> is_str v"
    by force
  with v show ?case by simp
qed

lemma mul_rnd_numeric:
  assumes "\<And>x. x \<in> set vs \<Longrightarrow> \<not> is_str x"
    and "case rn of Scalar x \<Rightarrow> True | Array xs \<Rightarrow> length xs = length vs"
  shows "\<exists>ws. mul_rnd vs rn = Inr ws \<and> length ws = length vs \<and> (\<forall>v \<in> set ws. \<not> is_str v)"
proof (cases rn)
  case (Scalar x)
  have "\<exists>ws. map_e (\<lambda>v. cell_mul v (Num x)) vs = Inr ws \<and> length ws = length vs \<and> (\<forall>v \<in> set ws. \<not> is_str v)"
    by (rule map_e_numeric) (use assms(1) cell_mul_numeric in blast)
  with Scalar show ?thesis by (simp add: mul_rnd_def)
next
  case (Array xs)
  with assms(2) have len: "length xs = length vs" by simp
  have "\<exists>ws. map_e (\<lambda>(x, y). cell_mul x y) (zip vs (map Num xs)) = Inr ws
        \<and> length ws = length (zip vs (map Num xs)) \<and> (\<forall>v \<in> set ws. \<not> is_str v)"
  proof (rule map_e_numeric)
    fix p assume "p \<in> set (zip vs (map Num xs))"
    then obtain a k where p: "p = (a, Num k)" "a \<in> set vs"
      by (auto simp: set_zip)
    with assms(1) cell_mul_numeric[of a k] show "\<exists>v. (case p of (x, y) \<Rightarrow> cell_mul x y) = Inr v \<and> \<not> is_str v"
      by auto
  qed
  with Array len show ?thesis by (simp add: mul_rnd_def zip_op_def)
qed

text \<open>The in-place steps as updates of the object behind the reference.\<close>

lemma assign_div_scalar_run:
  "assign_div_scalar r c a t w =
     (case getitem (heap w r) a of Inl e \<Rightarrow> Inl e | Inr xs \<Rightarrow>
      (case map_e (\<lambda>x. cell_div x t) xs of Inl e \<Rightarrow> Inl e | Inr vs \<Rightarrow>
       (case setitem (heap w r) c vs of Inl e \<Rightarrow> Inl e
        | Inr d' \<Rightarrow> Inr ((), w\<lparr>heap := (heap w)(r := d')\<rparr>))))"
  by (simp add: assign_div_scalar_def bind_def load_def lift_def store_def split: sum.splits)

lemma imul_rnd_run:
  "imul_rnd r c rn w =
     (case getitem (heap w r) c of Inl e \<Rightarrow> Inl e | Inr xs \<Rightarrow>
      (case mul_rnd xs rn of Inl e \<Rightarrow> Inl e | Inr vs \<Rightarrow>
       (case setitem (heap w r) c vs of Inl e \<Rightarrow> Inl e
        | Inr d' \<Rightarrow> Inr ((), w\<lparr>heap := (heap w)(r := d')\<rparr>))))"
  by (simp add: imul_rnd_def bind_def load_def lift_def store_def split: sum.splits)

lemma sort_values_inplace_run:
  "sort_values_inplace r c w =
     (case sort_values_desc (heap w r) c of Inl e \<Rightarrow> Inl e
      | Inr d' \<Rightarrow> Inr ((), w\<lparr>heap := (heap w)(r := d')\<rparr>))"
  by (simp add: sort_values_inplace_def bind_def load_def lift_def store_def split: sum.splits)

lemma drop_inplace_run:
  "drop_inplace r cs w =
     (case drop_columns (heap w r) cs of Inl e \<Rightarrow> Inl e
      | Inr d' \<Rightarrow> Inr ((), w\<lparr>heap := (heap w)(r := d')\<rparr>))"
  by (simp add: drop_inplace_def bind_def load_def lift_def store_def split: sum.splits)

lemma setitem_weight:
  assumes rel: "list_all2 (\<lambda>x ir. snd ir = x \<or> (\<exists>u. snd ir = x(c \<mapsto> u))) X (rows dk)"
    and len: "length vs = length (rows dk)" and num: "\<forall>v \<in> set vs. \<not> is_str v"
  shows "\<exists>d'. setitem dk c vs = Inr d' \<and> c \<in> set (columns d') \<and> set (columns dk) \<subseteq> set (columns d')
           \<and> list_all2 (\<lambda>x ir. \<exists>v. \<not> is_str v \<and> snd ir = x(c \<mapsto> v)) X (rows d')"
proof -
  let ?d' = "\<lparr>columns = (if c \<in> set (columns dk) then columns dk else columns dk @ [c]),
              rows = map (\<lambda>(ir, v). (fst ir, (snd ir)(c \<mapsto> v))) (zip (rows dk) vs)\<rparr>"
  have s: "setitem dk c vs = Inr ?d'" using len by (simp add: setitem_def)
  from rel have lx: "length X = length (rows dk)" by (rule list_all2_lengthD)
  have "list_all2 (\<lambda>x ir. \<exists>v. \<not> is_str v \<and> snd ir = x(c \<mapsto> v)) X (rows ?d')"
    unfolding list_all2_conv_all_nth
  proof (intro conjI allI impI)
    show "length X = length (rows ?d')" using lx len by simp
    fix i assume i: "i < length X"
    with lx len have iv: "i < length vs" and ir: "i < length (rows dk)" by simp_all
    from rel i have "snd (rows dk ! i) = X ! i \<or> (\<exists>u. snd (rows dk ! i) = (X ! i)(c \<mapsto> u))"
      by (simp add: list_all2_conv_all_nth)
    then have "(snd (rows dk ! i))(c \<mapsto> vs ! i) = (X ! i)(c \<mapsto> vs ! i)" by auto
    moreover from num iv have "\<not> is_str (vs ! i)" by simp
    ultimately show "\<exists>v. \<not> is_str v \<and> snd (rows ?d' ! i) = (X ! i)(c \<mapsto> v)"
      using iv ir by auto
  qed
  with s show ?thesis by auto
qed

lemma getitem_weight:
  assumes "c \<in> set (columns dk)"
    and "list_all2 (\<lambda>x ir. \<exists>v. \<not> is_str v \<and> snd ir = x(c \<mapsto> v)) X (rows dk)"
  shows "\<exists>ks. getitem dk c = Inr ks \<and> length ks = length (rows dk) \<and> (\<forall>k \<in> set ks. \<not> is_str k)"
proof -
  have "\<forall>ir \<in> set (rows dk). \<not> is_str (cellat (snd ir) c)"
  proof
    fix ir assume "ir \<in> set (rows dk)"
    from list_all2_partner[OF assms(2) this] show "\<not> is_str (cellat (snd ir) c)"
      by (auto simp: cellat_def)
  qed
  with assms(1) show ?thesis by (auto simp: getitem_def)
qed

lemma sort_values_desc_perm:
  assumes "getitem dk c = Inr ks" "length ks = length (rows dk)" "\<forall>k \<in> set ks. \<not> is_str k"
  shows "\<exists>d'. sort_values_desc dk c = Inr d' \<and> columns d' = columns dk
           \<and> mset (map snd (rows d')) = mset (map snd (rows dk))"
proof -
  let ?zs = "zip ks (map snd (rows dk))"
  define d' where "d' = dk\<lparr>rows := renumber (map snd (sort_desc ?zs))\<rparr>"
  have "\<not> list_ex is_str ks" using assms(3) by (simp add: list_ex_iff)
  with assms(1) have s: "sort_values_desc dk c = Inr d'"
    by (simp add: sort_values_desc_def d'_def)
  have "mset (map snd (sort_desc ?zs)) = image_mset snd (mset (sort_desc ?zs))" by simp
  also have "\<dots> = image_mset snd (mset ?zs)" by (simp only: mset_sort_desc)
  also have "\<dots> = mset (map snd ?zs)" by simp
  also have "map snd ?zs = map snd (rows dk)" using assms(2) by simp
  finally have m: "mset (map snd (sort_desc ?zs)) = mset (map snd (rows dk))" .
  have r: "map snd (rows d') = map snd (sort_desc ?zs)" by (simp add: d'_def)
  have c: "columns d' = columns dk" by (simp add: d'_def)
  from m have "mset (map snd (rows d')) = mset (map snd (rows dk))" unfolding r .
  with s c show ?thesis by blast
qed

lemma drop_one_column:
  assumes "c \<in> set (columns dk)"
  shows "drop_columns dk [c] =
     Inr \<lparr>columns = filter (\<lambda>x. x \<noteq> c) (columns dk),
          rows = map (\<lambda>ir. (fst ir, snd ir |` (- {c}))) (rows dk)\<rparr>"
  using assms by (simp add: drop_columns_def)

lemma get_random_float_shape:
  "\<exists>rn w'. get_random_float k w = Inr (rn, w') \<and> heap w' = heap w \<and> nxt w' = nxt w
     \<and> (case rn of Scalar x \<Rightarrow> True | Array xs \<Rightarrow> length xs = k)"
  by (simp add: get_random_float_def)

lemma cell_eq_iff: "region \<noteq> Null \<Longrightarrow> cell_eq v region \<longleftrightarrow> v = region"
  by (cases v; cases region) auto

lemma bind_Inr: "m w = Inr (x, w1) \<Longrightarrow> bind m f w = f x w1"
  by (simp add: bind_def)

text \<open>
  A successful run of the sampler, summarised: the rows of the returned table are a
  leading slice of some arrangement \<open>S\<close> of the region's rows, each without its
  \<open>weight\<close> cell.
\<close>

lemma generate_run:
  assumes reg_col: "''Region'' \<in> set (columns (heap w df))"
    and num: "numeric_cols (heap w df) [''Sum_Turnov'']"
  shows "\<exists>r' w' S. generate_replacement_locations df region n_locations w = Inr (r', w')
     \<and> mset S = mset (map (\<lambda>ir. snd ir |` (- {''weight''}))
                  (filter (\<lambda>ir. cell_eq (cellat (snd ir) ''Region'') region) (rows (heap w df))))
     \<and> map snd (rows (heap w' r')) =
         (if 0 \<le> n_locations then take (nat n_locations) S
          else take (length S - nat (- n_locations)) S)"
proof -
  define d where "d = heap w df"
  define n where "n = nxt w"
  define reg where "reg = map (\<lambda>ir. cellat (snd ir) ''Region'') (rows d)"
  define X where "X = map snd (filter (\<lambda>ir. cell_eq (cellat (snd ir) ''Region'') region) (rows d))"
  define dr where "dr = reset_index (select_rows d (map (\<lambda>v. cell_eq v region) reg))"
  let ?loose = "\<lambda>x ir. snd ir = x \<or> (\<exists>u. snd ir = x(''weight'' \<mapsto> u))"
  let ?rel = "\<lambda>x ir. \<exists>v. \<not> is_str v \<and> snd ir = x(''weight'' \<mapsto> v)"
  have st_col: "''Sum_Turnov'' \<in> set (columns d)"
    using numeric_colsD(1)[OF num] by (simp add: d_def)
  have st_num: "\<And>ir. ir \<in> set (rows d) \<Longrightarrow> \<not> is_str (cellat (snd ir) ''Sum_Turnov'')"
    using numeric_colsD(2)[OF num] by (simp add: d_def)
  have g_reg: "getitem d ''Region'' = Inr reg"
    using reg_col by (simp add: getitem_def reg_def d_def)
  have dr_cols: "columns dr = columns d"
    by (simp add: dr_def reset_index_def select_rows_def)
  have "map (\<lambda>v. cell_eq v region) reg = map (\<lambda>ir. cell_eq (cellat (snd ir) ''Region'') region) (rows d)"
    by (simp add: reg_def)
  then have dr_rows: "rows dr = renumber X"
    by (simp add: dr_def reset_index_def select_rows_def X_def filter_by_marks)
  have X_sub: "\<And>x. x \<in> set X \<Longrightarrow> \<exists>ir \<in> set (rows d). snd ir = x"
    by (auto simp: X_def)
  have dr_rel: "list_all2 ?loose X (rows dr)"
    by (simp add: dr_rows renumber_def list_all2_conv_all_nth)
  have dr_snd: "map snd (rows dr) = X" by (simp add: dr_rows)
  define st where "st = map (\<lambda>ir. cellat (snd ir) ''Sum_Turnov'') (rows dr)"
  have g_st: "getitem dr ''Sum_Turnov'' = Inr st"
    using st_col by (simp add: getitem_def st_def dr_cols)
  have st_eq: "st = map (\<lambda>x. cellat x ''Sum_Turnov'') X"
    unfolding st_def dr_snd[symmetric] by (simp add: comp_def)
  have st_ok: "\<And>v. v \<in> set st \<Longrightarrow> \<not> is_str v"
    unfolding st_eq using X_sub st_num by (metis (no_types, lifting) imageE list.set_map)
  from series_sum_numeric[OF st_ok] obtain total where
    total: "series_sum st = Inr total" "\<not> is_str total" by blast
  have "\<exists>vs. map_e (\<lambda>x. cell_div x total) st = Inr vs \<and> length vs = length st \<and> (\<forall>v \<in> set vs. \<not> is_str v)"
    by (rule map_e_numeric) (use st_ok total(2) cell_div_numeric in blast)
  then obtain wt where wt: "map_e (\<lambda>x. cell_div x total) st = Inr wt" "length wt = length st"
    "\<forall>v \<in> set wt. \<not> is_str v" by blast
  have "length wt = length (rows dr)" using wt(2) by (simp add: st_def)
  from setitem_weight[OF dr_rel this wt(3)] obtain d1 where
    d1: "setitem dr ''weight'' wt = Inr d1" "''weight'' \<in> set (columns d1)" "list_all2 ?rel X (rows d1)"
    by blast
  have len1: "length (rows d1) = length X" using d1(3) by (simp add: list_all2_lengthD)
  from getitem_weight[OF d1(2,3)] obtain ks1 where
    ks1: "getitem d1 ''weight'' = Inr ks1" "length ks1 = length (rows d1)" "\<forall>k \<in> set ks1. \<not> is_str k"
    by blast
  define w1 where "w1 = w\<lparr>heap := (heap w)(n := d), nxt := Suc n\<rparr>"
  have c1: "copy_df df w = Inr (n, w1)"
    by (simp add: copy_df_def bind_def load_def alloc_def w1_def n_def d_def)
  have h1: "heap w1 n = d" by (simp add: w1_def)
  define w2 where "w2 = w1\<lparr>heap := (heap w1)(Suc n := dr), nxt := Suc (Suc n)\<rparr>"
  have c2: "alloc dr w1 = Inr (Suc n, w2)" by (simp add: alloc_def w1_def w2_def)
  have h2: "heap w2 (Suc n) = dr" by (simp add: w2_def)
  define w3 where "w3 = w2\<lparr>heap := (heap w2)(Suc n := d1)\<rparr>"
  have c3: "assign_div_scalar (Suc n) ''weight'' ''Sum_Turnov'' total w2 = Inr ((), w3)"
    by (simp add: assign_div_scalar_run h2 g_st wt(1) d1(1) w3_def)
  have h3: "heap w3 (Suc n) = d1" by (simp add: w3_def)
  from get_random_float_shape[of "length (rows d1)" w3] obtain rn w4 where
    c4: "get_random_float (length (rows d1)) w3 = Inr (rn, w4)" and
    h4: "heap w4 = heap w3" and n4: "nxt w4 = nxt w3" and
    shape: "case rn of Scalar x \<Rightarrow> True | Array xs \<Rightarrow> length xs = length (rows d1)"
    by blast
  have "case rn of Scalar x \<Rightarrow> True | Array xs \<Rightarrow> length xs = length ks1"
    using shape ks1(2) by (simp split: rnd.splits)
  from mul_rnd_numeric[OF _ this] ks1(3) obtain wt2 where
    wt2: "mul_rnd ks1 rn = Inr wt2" "length wt2 = length ks1" "\<forall>v \<in> set wt2. \<not> is_str v"
    by blast
  have rel1: "list_all2 ?loose X (rows d1)"
    using d1(3) by (rule list_all2_mono) blast
  have "length wt2 = length (rows d1)" using wt2(2) ks1(2) by simp
  from setitem_weight[OF rel1 this wt2(3)] obtain d2 where
    d2: "setitem d1 ''weight'' wt2 = Inr d2" "''weight'' \<in> set (columns d2)" "list_all2 ?rel X (rows d2)"
    by blast
  define w5 where "w5 = w4\<lparr>heap := (heap w4)(Suc n := d2)\<rparr>"
  have c5: "imul_rnd (Suc n) ''weight'' rn w4 = Inr ((), w5)"
    by (simp add: imul_rnd_run h4 h3 ks1(1) wt2(1) d2(1) w5_def)
  have h5: "heap w5 (Suc n) = d2" by (simp add: w5_def)
  from getitem_weight[OF d2(2,3)] obtain ks2 where
    ks2: "getitem d2 ''weight'' = Inr ks2" "length ks2 = length (rows d2)" "\<forall>k \<in> set ks2. \<not> is_str k"
    by blast
  from sort_values_desc_perm[OF ks2] obtain d3 where
    d3: "sort_values_desc d2 ''weight'' = Inr d3" "columns d3 = columns d2"
      "mset (map snd (rows d3)) = mset (map snd (rows d2))"
    by blast
  define w6 where "w6 = w5\<lparr>heap := (heap w5)(Suc n := d3)\<rparr>"
  have c6: "sort_values_inplace (Suc n) ''weight'' w5 = Inr ((), w6)"
    by (simp add: sort_values_inplace_run h5 d3(1) w6_def)
  have h6: "heap w6 (Suc n) = d3" by (simp add: w6_def)
  define d4 where "d4 = \<lparr>columns = filter (\<lambda>x. x \<noteq> ''weight'') (columns d3),
                          rows = map (\<lambda>ir. (fst ir, snd ir |` (- {''weight''}))) (rows d3)\<rparr>"
  have dd: "drop_columns d3 [''weight''] = Inr d4"
    unfolding d4_def by (rule drop_one_column) (simp add: d3(2) d2(2))
  define w7 where "w7 = w6\<lparr>heap := (heap w6)(Suc n := d4)\<rparr>"
  have c7: "drop_inplace (Suc n) [''weight''] w6 = Inr ((), w7)"
    by (simp add: drop_inplace_run h6 dd w7_def)
  have h7: "heap w7 (Suc n) = d4" by (simp add: w7_def)
  define w8 where "w8 = w7\<lparr>heap := (heap w7)(nxt w7 := head_rows d4 n_locations), nxt := Suc (nxt w7)\<rparr>"
  have c8: "alloc (head_rows d4 n_locations) w7 = Inr (nxt w7, w8)"
    by (simp add: alloc_def w8_def)
  have h8: "heap w8 (nxt w7) = head_rows d4 n_locations" by (simp add: w8_def)
  have run: "generate_replacement_locations df region n_locations w = Inr (nxt w7, w8)"
    unfolding generate_replacement_locations_def
    by (simp add: bind_def c1 load_def h1 lift_def g_reg dr_def[symmetric] c2 h2 g_st total(1)
        c3 h3 c4 c5 c6 c7 h7 c8)
  define S where "S = map (\<lambda>x. x |` (- {''weight''})) (map snd (rows d3))"
  have strip: "map (\<lambda>x. x |` (- {''weight''})) (map snd (rows d2)) = map (\<lambda>x. x |` (- {''weight''})) X"
  proof (rule nth_equalityI)
    show "length (map (\<lambda>x. x |` (- {''weight''})) (map snd (rows d2))) = length (map (\<lambda>x. x |` (- {''weight''})) X)"
      using d2(3) by (simp add: list_all2_lengthD)
    fix i assume "i < length (map (\<lambda>x. x |` (- {''weight''})) (map snd (rows d2)))"
    then have i: "i < length (rows d2)" by simp
    with d2(3) have iX: "i < length X" by (simp add: list_all2_lengthD)
    from d2(3) iX obtain v where "snd (rows d2 ! i) = (X ! i)(''weight'' \<mapsto> v)"
      by (auto simp: list_all2_conv_all_nth)
    then have "snd (rows d2 ! i) |` (- {''weight''}) = (X ! i) |` (- {''weight''})"
      by (auto simp: restrict_map_def fun_eq_iff)
    with i iX show "map (\<lambda>x. x |` (- {''weight''})) (map snd (rows d2)) ! i = map (\<lambda>x. x |` (- {''weight''})) X ! i"
      by simp
  qed
  have "mset S = image_mset (\<lambda>x. x |` (- {''weight''})) (mset (map snd (rows d3)))"
    by (simp only: S_def mset_map)
  also have "\<dots> = image_mset (\<lambda>x. x |` (- {''weight''})) (mset (map snd (rows d2)))"
    by (simp only: d3(3))
  also have "\<dots> = mset (map (\<lambda>x. x |` (- {''weight''})) (map snd (rows d2)))"
    by (simp only: mset_map)
  also have "\<dots> = mset (map (\<lambda>x. x |` (- {''weight''})) X)" by (simp only: strip)
  also have "map (\<lambda>x. x |` (- {''weight''})) X = map (\<lambda>ir. snd ir |` (- {''weight''}))
                  (filter (\<lambda>ir. cell_eq (cellat (snd ir) ''Region'') region) (rows (heap w df)))"
    by (simp add: X_def d_def comp_def)
  finally have mS: "mset S = mset (map (\<lambda>ir. snd ir |` (- {''weight''}))
                  (filter (\<lambda>ir. cell_eq (cellat (snd ir) ''Region'') region) (rows (heap w df))))" .
  have r4: "map snd (rows d4) = S" by (simp add: d4_def S_def comp_def)
  have "map snd (rows (heap w8 (nxt w7))) =
         (if 0 \<le> n_locations then take (nat n_locations) S
          else take (length S - nat (- n_locations)) S)"
    unfolding h8 using r4 by (auto simp: head_rows_def take_map[symmetric] simp del: take_map)
  with run mS show ?thesis by blast
qed

lemma cellat_strip: "c \<noteq> ''weight'' \<Longrightarrow> cellat (x |` (- {''weight''})) c = cellat x c"
  by (simp add: cellat_def restrict_map_def)

text \<open>
  C6. Let the table have pairwise different \<open>FacilityID\<close> cells, a \<open>Region\<close> column and a
  numeric \<open>Sum_Turnov\<close> column, let the region be a value and \<open>n_locations >= 0\<close>. Then
  \<open>generate_replacement_locations\<close> returns (also when \<open>n_locations\<close> exceeds the
  region's row count \<open>R\<close>) a table of exactly \<open>min n_locations R\<close> rows; each returned
  row is a row of the table whose \<open>Region\<close> cell is the region, without the scratch
  column \<open>weight\<close> that the function adds and drops; and no two returned rows have the
  same \<open>FacilityID\<close>.
\<close>

theorem replacement_selection_count:
  assumes uniq: "distinct (map (\<lambda>ir. cellat (snd ir) ''FacilityID'') (rows (heap w df)))"
    and nonneg: "0 \<le> n_locations" and reg: "region \<noteq> Null"
    and reg_col: "''Region'' \<in> set (columns (heap w df))"
    and num: "numeric_cols (heap w df) [''Sum_Turnov'']"
  shows "\<exists>r' w'. generate_replacement_locations df region n_locations w = Inr (r', w')
     \<and> length (rows (heap w' r')) =
         min (nat n_locations)
             (length (filter (\<lambda>ir. cellat (snd ir) ''Region'' = region) (rows (heap w df))))
     \<and> (\<forall>ir' \<in> set (rows (heap w' r')). \<exists>ir \<in> set (rows (heap w df)).
           cellat (snd ir) ''Region'' = region \<and> snd ir' = snd ir |` (- {''weight''}))
     \<and> distinct (map (\<lambda>ir. cellat (snd ir) ''FacilityID'') (rows (heap w' r')))"
proof -
  let ?F = "filter (\<lambda>ir. cellat (snd ir) ''Region'' = region) (rows (heap w df))"
  let ?strip = "\<lambda>ir. snd ir |` (- {''weight''})"
  let ?k = "\<lambda>x. cellat x ''FacilityID''"
  have F: "filter (\<lambda>ir. cell_eq (cellat (snd ir) ''Region'') region) (rows (heap w df)) = ?F"
    using reg by (simp add: cell_eq_iff)
  from generate_run[OF reg_col num, of region n_locations] obtain r' w' S where
    run: "generate_replacement_locations df region n_locations w = Inr (r', w')" and
    mS0: "mset S = mset (map ?strip
            (filter (\<lambda>ir. cell_eq (cellat (snd ir) ''Region'') region) (rows (heap w df))))" and
    res0: "map snd (rows (heap w' r')) =
         (if 0 \<le> n_locations then take (nat n_locations) S
          else take (length S - nat (- n_locations)) S)"
    by blast
  from mS0 have mS: "mset S = mset (map ?strip ?F)" by (simp only: F)
  from res0 nonneg have res: "map snd (rows (heap w' r')) = take (nat n_locations) S" by simp
  from mS have "length S = length (map ?strip ?F)" by (rule mset_eq_length)
  then have lenS: "length S = length ?F" by simp
  from mS have setS: "set S = set (map ?strip ?F)" by (rule mset_eq_setD)
  have "length (rows (heap w' r')) = length (map snd (rows (heap w' r')))" by simp
  also have "\<dots> = min (nat n_locations) (length ?F)" unfolding res using lenS by simp
  finally have len: "length (rows (heap w' r')) = min (nat n_locations) (length ?F)" .
  have mem: "\<forall>ir' \<in> set (rows (heap w' r')). \<exists>ir \<in> set (rows (heap w df)).
           cellat (snd ir) ''Region'' = region \<and> snd ir' = snd ir |` (- {''weight''})"
  proof
    fix ir' assume "ir' \<in> set (rows (heap w' r'))"
    then have "snd ir' \<in> set (map snd (rows (heap w' r')))" by simp
    then have "snd ir' \<in> set S" unfolding res by (rule in_set_takeD)
    with setS obtain ir where "ir \<in> set ?F" "snd ir' = ?strip ir" by auto
    then show "\<exists>ir \<in> set (rows (heap w df)).
           cellat (snd ir) ''Region'' = region \<and> snd ir' = snd ir |` (- {''weight''})"
      by auto
  qed
  have "mset (map ?k S) = image_mset ?k (mset S)" by (simp only: mset_map)
  also have "\<dots> = image_mset ?k (mset (map ?strip ?F))" by (simp only: mS)
  also have "\<dots> = mset (map ?k (map ?strip ?F))" by (simp only: mset_map)
  also have "map ?k (map ?strip ?F) = map (\<lambda>ir. cellat (snd ir) ''FacilityID'') ?F"
    by (simp add: cellat_strip)
  finally have mk: "mset (map ?k S) = mset (map (\<lambda>ir. cellat (snd ir) ''FacilityID'') ?F)" .
  have "distinct (map (\<lambda>ir. cellat (snd ir) ''FacilityID'') ?F)"
    using uniq by (rule distinct_map_filter)
  then have dS: "distinct (map ?k S)"
    using mset_eq_imp_distinct_iff[OF mk] by (simp only:)
  have "map (\<lambda>ir. cellat (snd ir) ''FacilityID'') (rows (heap w' r')) = map ?k (map snd (rows (heap w' r')))"
    by (simp add: comp_def)
  also have "\<dots> = take (nat n_locations) (map ?k S)" unfolding res by (simp add: take_map)
  finally have "distinct (map (\<lambda>ir. cellat (snd ir) ''FacilityID'') (rows (heap w' r')))"
    using dS by (simp add: distinct_take)
  with run len mem show ?thesis by blast
qed

lemma sampling_world_ok:
  "distinct (map (\<lambda>ir. cellat (snd ir) ''FacilityID'') (rows (heap sampling_world 0)))
   \<and> (0::int) \<le> 5 \<and> Str ''North'' \<noteq> Null
   \<and> ''Region'' \<in> set (columns (heap sampling_world 0))
   \<and> numeric_cols (heap sampling_world 0) [''Sum_Turnov'']"
  by code_simp

theorem replacement_selection_count_witness:
  "distinct (map (\<lambda>ir. cellat (snd ir) ''FacilityID'') (rows (heap sampling_world 0)))
   \<and> (0::int) \<le> 5 \<and> Str ''North'' \<noteq> Null
   \<and> ''Region'' \<in> set (columns (heap sampling_world 0))
   \<and> numeric_cols (heap sampling_world 0) [''Sum_Turnov'']
   \<and> (\<exists>r' w'. generate_replacement_locations 0 (Str ''North'') 5 sampling_world = Inr (r', w')
     \<and> length (rows (heap w' r')) =
         min (nat 5)
             (length (filter (\<lambda>ir. cellat (snd ir) ''Region'' = Str ''North'') (rows (heap sampling_world 0))))
     \<and> (\<forall>ir' \<in> set (rows (heap w' r')). \<exists>ir \<in> set (rows (heap sampling_world 0)).
           cellat (snd ir) ''Region'' = Str ''North'' \<and> snd ir' = snd ir |` (- {''weight''}))
     \<and> distinct (map (\<lambda>ir. cellat (snd ir) ''FacilityID'') (rows (heap w' r'))))"
proof -
  note h = sampling_world_ok
  from h have h1: "distinct (map (\<lambda>ir. cellat (snd ir) ''FacilityID'') (rows (heap sampling_world 0)))"
    and h2: "(0::int) \<le> 5" and h3: "Str ''North'' \<noteq> Null"
    and h4: "''Region'' \<in> set (columns (heap sampling_world 0))"
    and h5: "numeric_cols (heap sampling_world 0) [''Sum_Turnov'']"
    by simp_all
  from conjI[OF h replacement_selection_count[OF h1 h2 h3 h4 h5]] show ?thesis
    by (simp only: conj_assoc simp_thms)
qed

text \<open>The example: five locations asked of a region of two, both returned, heavier first.\<close>

lemma replacement_selection_example:
  "table_after (generate_replacement_locations 0 (Str ''North'') 5) sampling_world =
     Inr ([''FacilityID'', ''Region'', ''Sum_Turnov''],
          [(0, [Num 1, Str ''North'', Num 900]), (1, [Num 2, Str ''North'', Num 100])])"
  by code_simp

subsection \<open>The index column of written files\<close>

lemma named_headers:
  "length ns = length cs \<Longrightarrow> [] \<notin> set cs
   \<Longrightarrow> map (\<lambda>(i, h). if h = [] then f i else h) (zip ns cs) = cs"
  by (induction cs arbitrary: ns) (auto simp: length_Suc_conv)

lemma show_nat_0: "show_nat 0 = ''0''"
  by (subst show_nat.simps) simp

lemma header_names_index:
  assumes "[] \<notin> set cs"
  shows "header_names ([] # cs) = ''Unnamed: 0'' # cs"
proof -
  have u: "[0..<Suc (length cs)] = 0 # [Suc 0..<Suc (length cs)]"
    by (rule upt_conv_Cons) simp
  have m: "map (\<lambda>(i, h). if h = [] then ''Unnamed: '' @ show_nat i else h) (zip [Suc 0..<Suc (length cs)] cs) = cs"
    by (rule named_headers) (use assms in \<open>simp_all del: upt_Suc\<close>)
  have "header_names ([] # cs) =
      map (\<lambda>(i, h). if h = [] then ''Unnamed: '' @ show_nat i else h) (zip (0 # [Suc 0..<Suc (length cs)]) ([] # cs))"
    unfolding header_names_def u[symmetric] by simp
  also have "\<dots> = (''Unnamed: '' @ show_nat 0) # cs"
    using m by (simp del: show_nat.simps upt_Suc)
  finally show ?thesis by (simp add: show_nat_0 del: show_nat.simps)
qed

lemma write_df_Inr:
  assumes "overwrite \<or> files w p = None" "p \<notin> dirs w" "parent p \<in> dirs w"
  shows "write_df args r p overwrite w =
     Inr ((), w\<lparr>files := (files w)(p \<mapsto>
        (if is_file_excel p then Excel (to_sheet False inf_rep (heap w r))
         else Csv (to_sheet False id (heap w r))))\<rparr>)"
  using assms
  by (auto simp: write_df_def bind_def path_exists_def return_def to_excel_def to_csv_def load_def
      write_file_def)

lemma merged_world_write_ok:
  "(False \<or> files merged_world draft_path = None) \<and> draft_path \<notin> dirs merged_world
   \<and> parent draft_path \<in> dirs merged_world
   \<and> distinct (columns (heap merged_world 0)) \<and> [] \<notin> set (columns (heap merged_world 0))
   \<and> ''Unnamed: 0'' \<notin> set (columns (heap merged_world 0))"
  by code_simp

text \<open>The example written by both writers: with and without the index column.\<close>

lemma writers_example:
  "file_after (write_df_to_excel 0 draft_path False) sampling_world draft_path =
     Inr (Some (Excel \<lparr>header = [[], ''FacilityID'', ''Region'', ''Sum_Turnov''],
                       body = [[Num 0, Num 1, Str ''North'', Num 900],
                               [Num 1, Num 2, Str ''North'', Num 100],
                               [Num 2, Num 3, Str ''South'', Num 40]]\<rparr>))
   \<and> file_after (write_df None 0 draft_path False) sampling_world draft_path =
     Inr (Some (Excel \<lparr>header = [''FacilityID'', ''Region'', ''Sum_Turnov''],
                       body = [[Num 1, Str ''North'', Num 900],
                               [Num 2, Str ''North'', Num 100],
                               [Num 3, Str ''South'', Num 40]]\<rparr>))"
  by code_simp

text \<open>
  C10 (as stated, refuted). The table that \<open>merge_facility_ID\<close> returns for the example
  has a column \<open>Unnamed: 0\<close> in memory, and its file is written with the index in front.
  Read back, the file does not give a column \<open>Unnamed: 0\<close> that the in-memory table
  lacks: the one label the re-read table has in addition is \<open>Unnamed: 0.1\<close>.
\<close>

theorem id_merge_reread_gains_other_label:
  "table_after (merge_facility_ID 0 id_merge_path False) frame_world =
     Inr ([''Unnamed: 0'', ''FacilityID'', ''LocName'', ''Merge_ID'', ''Merge_Num'', ''Sum_Turnov'',
           ''OutletCt'', ''LocName_merge'', ''FacilityID_merge''],
          [(0, [Num 0, Num 1, Str ''A'', Num 2, Num 1, Num 100, Num 300, Str ''B'', Num 2]),
           (1, [Num 1, Num 2, Str ''B'', Null, Num 2, Num 50, Num 100, Null, Null])])
   \<and> file_after (merge_facility_ID 0 id_merge_path False) frame_world id_merge_path =
     Inr (Some (Excel
       \<lparr>header = [[], ''Unnamed: 0'', ''FacilityID'', ''LocName'', ''Merge_ID'', ''Merge_Num'',
                  ''Sum_Turnov'', ''OutletCt'', ''LocName_merge'', ''FacilityID_merge''],
        body = [[Num 0, Num 0, Num 1, Str ''A'', Num 2, Num 1, Num 100, Num 300, Str ''B'', Num 2],
                [Num 1, Num 1, Num 2, Str ''B'', Null, Num 2, Num 50, Num 100, Null, Null]]\<rparr>))
   \<and> gained_columns (merge_facility_ID 0 id_merge_path False) id_merge_path frame_world =
     Inr [''Unnamed: 0.1'']"
  by code_simp

lemma count_of_set_count: "count_of (set_count k n cs) m = (if m = k then n else count_of cs m)"
proof -
  have "m \<noteq> k \<Longrightarrow> map_of (filter (\<lambda>p. fst p \<noteq> k) cs) m = map_of cs m"
    by (induction cs) auto
  then show ?thesis by (simp add: count_of_def set_count_def)
qed

lemma dedup_from_distinct:
  "distinct names \<Longrightarrow> (\<And>n. n \<in> set names \<Longrightarrow> count_of cs n = 0) \<Longrightarrow> dedup_from cs names = names"
proof (induction names arbitrary: cs)
  case Nil
  then show ?case by simp
next
  case (Cons a names)
  have one: "dedup_one cs a = (a, set_count a 1 cs)"
    using Cons.prems(2)[of a] by (simp add: dedup_one_def)
  have "dedup_from (set_count a 1 cs) names = names"
  proof (rule Cons.IH)
    show "distinct names" using Cons.prems(1) by simp
    fix n assume "n \<in> set names"
    with Cons.prems show "count_of (set_count a 1 cs) n = 0"
      by (auto simp: count_of_set_count)
  qed
  with one show ?case by simp
qed

lemma dedup_names_distinct: "distinct names \<Longrightarrow> dedup_names names = names"
  unfolding dedup_names_def by (rule dedup_from_distinct) (simp_all add: count_of_def)

lemma length_dedup_from: "length (dedup_from cs names) = length names"
  by (induction names arbitrary: cs) (simp_all add: Let_def case_prod_beta)

lemma length_dedup_names [simp]: "length (dedup_names names) = length names"
  by (simp add: dedup_names_def length_dedup_from)

lemma length_header_names [simp]: "length (header_names hs) = length hs"
  by (simp add: header_names_def)

text \<open>
  C10 (amended). Provided the path can be written, \<open>write_df_to_excel\<close> writes the index
  labels as a first column under a blank header cell in front of the table's columns,
  and \<open>write_df\<close> writes the table's columns only. Read back, the sheet of
  \<open>write_df_to_excel\<close> has one column more than the table in memory; when that table's
  labels are distinct, none blank and none \<open>Unnamed: 0\<close>, the re-read table has the
  index as first column \<open>Unnamed: 0\<close>, which the table in memory lacks.
\<close>

theorem writers_index_column:
  assumes "overwrite \<or> files w p = None" and "p \<notin> dirs w" and "parent p \<in> dirs w"
  shows "(\<exists>w'. write_df_to_excel df p overwrite w = Inr ((), w')
          \<and> files w' p = Some (Excel
               \<lparr>header = [] # columns (heap w df),
                body = map (\<lambda>ir. Num (of_nat (fst ir))
                                   # map (\<lambda>c. inf_rep (cellat (snd ir) c)) (columns (heap w df)))
                           (rows (heap w df))\<rparr>)
          \<and> (\<exists>r w''. read_excel p w' = Inr (r, w'')
                \<and> length (columns (heap w'' r)) = Suc (length (columns (heap w df)))
                \<and> (distinct (columns (heap w df)) \<and> [] \<notin> set (columns (heap w df))
                     \<and> ''Unnamed: 0'' \<notin> set (columns (heap w df))
                    \<longrightarrow> columns (heap w'' r) = ''Unnamed: 0'' # columns (heap w df))))
       \<and> (\<exists>w'. write_df args df p overwrite w = Inr ((), w')
          \<and> files w' p = Some
               (if is_file_excel p
                then Excel \<lparr>header = columns (heap w df),
                            body = map (\<lambda>ir. map (\<lambda>c. inf_rep (cellat (snd ir) c)) (columns (heap w df)))
                                       (rows (heap w df))\<rparr>
                else Csv \<lparr>header = columns (heap w df),
                          body = map (\<lambda>ir. map (\<lambda>c. cellat (snd ir) c) (columns (heap w df)))
                                     (rows (heap w df))\<rparr>))"
proof (rule conjI)
  let ?d = "heap w df"
  let ?sh = "to_sheet True inf_rep ?d"
  let ?w' = "w\<lparr>files := (files w)(p \<mapsto> Excel ?sh)\<rparr>"
  define d' where "d' = from_sheet ?sh"
  define w'' where "w'' = ?w'\<lparr>heap := (heap ?w')(nxt ?w' := d'), nxt := Suc (nxt ?w')\<rparr>"
  have run: "write_df_to_excel df p overwrite w = Inr ((), ?w')"
    by (rule write_df_to_excel_Inr) (use assms in simp_all)
  have sh: "?sh =
      \<lparr>header = [] # columns ?d,
       body = map (\<lambda>ir. Num (of_nat (fst ir)) # map (\<lambda>c. inf_rep (cellat (snd ir) c)) (columns ?d)) (rows ?d)\<rparr>"
    by (simp add: to_sheet_def)
  have cols: "columns d' = dedup_names (header_names ([] # columns ?d))"
    by (simp add: d'_def from_sheet_def Let_def to_sheet_def)
  have len: "length (columns d') = Suc (length (columns ?d))"
    unfolding cols by simp
  have named: "distinct (columns ?d) \<and> [] \<notin> set (columns ?d) \<and> ''Unnamed: 0'' \<notin> set (columns ?d)
      \<longrightarrow> columns d' = ''Unnamed: 0'' # columns ?d"
  proof
    assume a: "distinct (columns ?d) \<and> [] \<notin> set (columns ?d) \<and> ''Unnamed: 0'' \<notin> set (columns ?d)"
    then have "header_names ([] # columns ?d) = ''Unnamed: 0'' # columns ?d"
      by (simp add: header_names_index)
    moreover from a have "distinct (''Unnamed: 0'' # columns ?d)" by simp
    ultimately show "columns d' = ''Unnamed: 0'' # columns ?d"
      unfolding cols by (simp only: dedup_names_distinct)
  qed
  have rd: "read_excel p ?w' = Inr (nxt ?w', w'')"
    by (simp add: read_excel_def alloc_def w''_def d'_def)
  have h: "heap w'' (nxt ?w') = d'" by (simp add: w''_def)
  have "read_excel p ?w' = Inr (nxt ?w', w'')
                \<and> length (columns (heap w'' (nxt ?w'))) = Suc (length (columns ?d))
                \<and> (distinct (columns ?d) \<and> [] \<notin> set (columns ?d) \<and> ''Unnamed: 0'' \<notin> set (columns ?d)
                    \<longrightarrow> columns (heap w'' (nxt ?w')) = ''Unnamed: 0'' # columns ?d)"
    unfolding h using rd len named by (intro conjI)
  then have "\<exists>r w''. read_excel p ?w' = Inr (r, w'')
                \<and> length (columns (heap w'' r)) = Suc (length (columns ?d))
                \<and> (distinct (columns ?d) \<and> [] \<notin> set (columns ?d) \<and> ''Unnamed: 0'' \<notin> set (columns ?d)
                    \<longrightarrow> columns (heap w'' r) = ''Unnamed: 0'' # columns ?d)"
    by (intro exI)
  moreover have "files ?w' p = Some (Excel
               \<lparr>header = [] # columns ?d,
                body = map (\<lambda>ir. Num (of_nat (fst ir))
                                   # map (\<lambda>c. inf_rep (cellat (snd ir) c)) (columns ?d))
                           (rows ?d)\<rparr>)"
    using sh by simp
  ultimately show "\<exists>w'. write_df_to_excel df p overwrite w = Inr ((), w')
          \<and> files w' p = Some (Excel
               \<lparr>header = [] # columns ?d,
                body = map (\<lambda>ir. Num (of_nat (fst ir))
                                   # map (\<lambda>c. inf_rep (cellat (snd ir) c)) (columns ?d))
                           (rows ?d)\<rparr>)
          \<and> (\<exists>r w''. read_excel p w' = Inr (r, w'')
                \<and> length (columns (heap w'' r)) = Suc (length (columns ?d))
                \<and> (distinct (columns ?d) \<and> [] \<notin> set (columns ?d) \<and> ''Unnamed: 0'' \<notin> set (columns ?d)
                    \<longrightarrow> columns (heap w'' r) = ''Unnamed: 0'' # columns ?d))"
    using run by blast
next
  let ?d = "heap w df"
  have "write_df args df p overwrite w =
     Inr ((), w\<lparr>files := (files w)(p \<mapsto>
        (if is_file_excel p then Excel (to_sheet False inf_rep ?d)
         else Csv (to_sheet False id ?d)))\<rparr>)"
    by (rule write_df_Inr) (use assms in simp_all)
  then show "\<exists>w'. write_df args df p overwrite w = Inr ((), w')
          \<and> files w' p = Some
               (if is_file_excel p
                then Excel \<lparr>header = columns ?d,
                            body = map (\<lambda>ir. map (\<lambda>c. inf_rep (cellat (snd ir) c)) (columns ?d)) (rows ?d)\<rparr>
                else Csv \<lparr>header = columns ?d,
                          body = map (\<lambda>ir. map (\<lambda>c. cellat (snd ir) c) (columns ?d)) (rows ?d)\<rparr>)"
    by (simp add: to_sheet_def)
qed


theorem writers_index_column_witness:
  "(False \<or> files merged_world draft_path = None) \<and> draft_path \<notin> dirs merged_world
   \<and> parent draft_path \<in> dirs merged_world
   \<and> distinct (columns (heap merged_world 0)) \<and> [] \<notin> set (columns (heap merged_world 0))
   \<and> ''Unnamed: 0'' \<notin> set (columns (heap merged_world 0))
   \<and> (\<exists>w'. write_df_to_excel 0 draft_path False merged_world = Inr ((), w')
          \<and> files w' draft_path = Some (Excel
               \<lparr>header = [] # columns (heap merged_world 0),
                body = map (\<lambda>ir. Num (of_nat (fst ir))
                                   # map (\<lambda>c. inf_rep (cellat (snd ir) c)) (columns (heap merged_world 0)))
                           (rows (heap merged_world 0))\<rparr>)
          \<and> (\<exists>r w''. read_excel draft_path w' = Inr (r, w'')
                \<and> length (columns (heap w'' r)) = Suc (length (columns (heap merged_world 0)))
                \<and> columns (heap w'' r) = ''Unnamed: 0'' # columns (heap merged_world 0)))
   \<and> (\<exists>w'. write_df None 0 draft_path False merged_world = Inr ((), w')
          \<and> files w' draft_path = Some
               (if is_file_excel draft_path
                then Excel \<lparr>header = columns (heap merged_world 0),
                            body = map (\<lambda>ir. map (\<lambda>c. inf_rep (cellat (snd ir) c)) (columns (heap merged_world 0)))
                                       (rows (heap merged_world 0))\<rparr>
                else Csv \<lparr>header = columns (heap merged_world 0),
                          body = map (\<lambda>ir. map (\<lambda>c. cellat (snd ir) c) (columns (heap merged_world 0)))
                                     (rows (heap merged_world 0))\<rparr>))"
proof -
  note h = merged_world_write_ok
  from h have h1: "False \<or> files merged_world draft_path = None"
    and h2: "draft_path \<notin> dirs merged_world" and h3: "parent draft_path \<in> dirs merged_world"
    and h4: "distinct (columns (heap merged_world 0)) \<and> [] \<notin> set (columns (heap merged_world 0))
             \<and> ''Unnamed: 0'' \<notin> set (columns (heap merged_world 0))"
    by simp_all
  from writers_index_column[OF h1 h2 h3, where args = None and df = 0] h4
  have "(\<exists>w'. write_df_to_excel 0 draft_path False merged_world = Inr ((), w')
          \<and> files w' draft_path = Some (Excel
               \<lparr>header = [] # columns (heap merged_world 0),
                body = map (\<lambda>ir. Num (of_nat (fst ir))
                                   # map (\<lambda>c. inf_rep (cellat (snd ir) c)) (columns (heap merged_world 0)))
                           (rows (heap merged_world 0))\<rparr>)
          \<and> (\<exists>r w''. read_excel draft_path w' = Inr (r, w'')
                \<and> length (columns (heap w'' r)) = Suc (length (columns (heap merged_world 0)))
                \<and> columns (heap w'' r) = ''Unnamed: 0'' # columns (heap merged_world 0)))
   \<and> (\<exists>w'. write_df None 0 draft_path False merged_world = Inr ((), w')
          \<and> files w' draft_path = Some
               (if is_file_excel draft_path
                then Excel \<lparr>header = columns (heap merged_world 0),
                            body = map (\<lambda>ir. map (\<lambda>c. inf_rep (cellat (snd ir) c)) (columns (heap merged_world 0)))
                                       (rows (heap merged_world 0))\<rparr>
                else Csv \<lparr>header = columns (heap merged_world 0),
                          body = map (\<lambda>ir. map (\<lambda>c. cellat (snd ir) c) (columns (heap merged_world 0)))
                                     (rows (heap merged_world 0))\<rparr>))"
    by (simp only: simp_thms)
  from conjI[OF h this] show ?thesis by (simp only: conj_assoc simp_thms)
qed

end
